theory Spec2Isabelle
  imports Main "HOL-Library.Char_ord" "HOL-Library.List_Lexorder"
begin

section \<open>Python strings and integers\<close>

text \<open>
  The release script \<^verbatim>\<open>tasks.py\<close> only formats strings and sequences shell commands.
  Strings are \<^typ>\<open>string\<close>; Python's unbounded integers are \<^typ>\<open>int\<close>. The
  exceptions that the script's library calls can raise are values of \<open>error\<close>.
\<close>

datatype error =
    Failure string nat
  | ValueError string
  | KeyError string
  | OSError string string

text \<open>
  \<open>Failure cmd status\<close> is \<^verbatim>\<open>invoke.exceptions.Failure\<close>, raised by \<^verbatim>\<open>invoke.run\<close> when
  the command exits with a nonzero status. \<open>OSError op path\<close> stands for the
  \<^verbatim>\<open>OSError\<close> family raised by the file-system call \<open>op\<close> on \<open>path\<close>.
\<close>

text \<open>
  \<^verbatim>\<open>c.isspace()\<close> for a character of a Python 3 \<^verbatim>\<open>str\<close>. A \<^typ>\<open>char\<close> is a code point
  below 256; these are the whitespace characters among them.
\<close>

definition isspace :: "char \<Rightarrow> bool" where
  "isspace c = (c \<in> set [CHR 0x09, CHR 0x0A, CHR 0x0B, CHR 0x0C, CHR 0x0D,
                          CHR 0x1C, CHR 0x1D, CHR 0x1E, CHR 0x1F, CHR 0x20,
                          CHR 0x85, CHR 0xA0])"

text \<open>\<^verbatim>\<open>s.split()\<close>: the maximal runs of non-whitespace characters, in order.\<close>

fun split_acc :: "string \<Rightarrow> string \<Rightarrow> string list" where
  "split_acc cur [] = (if cur = [] then [] else [cur])"
| "split_acc cur (c # cs) =
     (if isspace c then (if cur = [] then [] else [cur]) @ split_acc [] cs
      else split_acc (cur @ [c]) cs)"

definition py_split :: "string \<Rightarrow> string list" where
  "py_split s = split_acc [] s"

text \<open>
  \<^verbatim>\<open>s.split(".")\<close> and \<^verbatim>\<open>s.rsplit(".")\<close> (with no limit the two agree): the pieces
  between occurrences of the separator character; never the empty list.
\<close>

fun split_on_acc :: "char \<Rightarrow> string \<Rightarrow> string \<Rightarrow> string list" where
  "split_on_acc sep cur [] = [cur]"
| "split_on_acc sep cur (c # cs) =
     (if c = sep then cur # split_on_acc sep [] cs
      else split_on_acc sep (cur @ [c]) cs)"

definition py_split_on :: "char \<Rightarrow> string \<Rightarrow> string list" where
  "py_split_on sep s = split_on_acc sep [] s"

text \<open>\<^verbatim>\<open>sep.join(parts)\<close>.\<close>

fun py_join :: "string \<Rightarrow> string list \<Rightarrow> string" where
  "py_join sep [] = []"
| "py_join sep [x] = x"
| "py_join sep (x # y # ys) = x @ sep @ py_join sep (y # ys)"

text \<open>\<^verbatim>\<open>s.lstrip()\<close>, \<^verbatim>\<open>s.strip()\<close> and \<^verbatim>\<open>s.endswith("/")\<close>.\<close>

definition py_lstrip :: "string \<Rightarrow> string" where
  "py_lstrip s = dropWhile isspace s"

definition py_strip :: "string \<Rightarrow> string" where
  "py_strip s = rev (dropWhile isspace (rev (dropWhile isspace s)))"

definition endswith_slash :: "string \<Rightarrow> bool" where
  "endswith_slash s = (s \<noteq> [] \<and> last s = CHR ''/'')"

text \<open>\<^verbatim>\<open>str(n)\<close> for an integer: decimal digits, a minus sign when negative.\<close>

definition digit_char :: "nat \<Rightarrow> char" where
  "digit_char d = ''0123456789'' ! d"

fun str_nat :: "nat \<Rightarrow> string" where
  "str_nat n = (if n < 10 then [digit_char n]
                else str_nat (n div 10) @ [digit_char (n mod 10)])"

declare str_nat.simps [simp del]

definition py_str :: "int \<Rightarrow> string" where
  "py_str i = (if i < 0 then CHR ''-'' # str_nat (nat (- i)) else str_nat (nat i))"

text \<open>
  \<^verbatim>\<open>int(s)\<close>: an optional sign followed by decimal digits, where single underscores may
  stand between two digits (\<^verbatim>\<open>int("1_0")\<close> is 10); anything else raises \<^verbatim>\<open>ValueError\<close>.
  Python also strips surrounding whitespace; every string the script passes to
  \<^verbatim>\<open>int\<close> is a piece of a whitespace-free token, so that step is the identity here and
  is left out.
\<close>

definition isdigit :: "char \<Rightarrow> bool" where
  "isdigit c = (CHR ''0'' \<le> c \<and> c \<le> CHR ''9'')"

fun nat_of_digits :: "nat \<Rightarrow> string \<Rightarrow> nat" where
  "nat_of_digits acc [] = acc"
| "nat_of_digits acc (c # cs) = nat_of_digits (10 * acc + (of_char c - 48)) cs"

fun well_grouped :: "string \<Rightarrow> bool" where
  "well_grouped [] = False"
| "well_grouped [c] = isdigit c"
| "well_grouped (c # d # cs) =
     (isdigit c \<and> (if d = CHR ''_'' then well_grouped cs else well_grouped (d # cs)))"

definition digits_value :: "string \<Rightarrow> error + nat" where
  "digits_value ds =
     (if well_grouped ds then Inr (nat_of_digits 0 (filter (\<lambda>c. c \<noteq> CHR ''_'') ds))
      else Inl (ValueError ds))"

definition py_int :: "string \<Rightarrow> error + int" where
  "py_int s =
     (case s of
        c # r \<Rightarrow>
          (if c = CHR ''-'' then
             (case digits_value r of Inl e \<Rightarrow> Inl (ValueError s) | Inr n \<Rightarrow> Inr (- int n))
           else if c = CHR ''+'' then
             (case digits_value r of Inl e \<Rightarrow> Inl (ValueError s) | Inr n \<Rightarrow> Inr (int n))
           else
             (case digits_value s of Inl e \<Rightarrow> Inl (ValueError s) | Inr n \<Rightarrow> Inr (int n)))
      | [] \<Rightarrow> Inl (ValueError s))"

section \<open>Version strings\<close>

text \<open>
  \<^verbatim>\<open>".".join([str(int(x)) for x in s.split(".")])\<close>, the expression the build task
  applies to the version series, the release version and the development version.
\<close>

fun int_fields :: "string list \<Rightarrow> error + string list" where
  "int_fields [] = Inr []"
| "int_fields (x # xs) =
     (case py_int x of
        Inl e \<Rightarrow> Inl e
      | Inr i \<Rightarrow> (case int_fields xs of Inl e \<Rightarrow> Inl e | Inr ys \<Rightarrow> Inr (py_str i # ys)))"

definition dotted_ints :: "string \<Rightarrow> error + string" where
  "dotted_ints s =
     (case int_fields (py_split_on CHR ''.'' s) of
        Inl e \<Rightarrow> Inl e
      | Inr ys \<Rightarrow> Inr (py_join ''.'' ys))"

text \<open>
  \<^verbatim>\<open>datetime.datetime.utcnow().strftime("%y.%m")\<close>: the year without century and the
  month, each zero-padded to two digits.
\<close>

definition pad2 :: "nat \<Rightarrow> string" where
  "pad2 n = (if n < 10 then CHR ''0'' # str_nat n else str_nat n)"

definition strftime_ym :: "nat \<Rightarrow> nat \<Rightarrow> string" where
  "strftime_ym year month = pad2 (year mod 100) @ ''.'' @ pad2 month"

definition version_series :: "nat \<Rightarrow> nat \<Rightarrow> error + string" where
  "version_series year month = dotted_ints (strftime_ym year month)"

text \<open>
  Lines 75-76: \<^verbatim>\<open>versions = sorted(tags.stdout.split())\<close> and
  \<^verbatim>\<open>version_num = int(versions[-1].rsplit(".")[-1]) + 1 if versions else 0\<close>.
  Python orders strings by code point, lexicographically: the order of
  \<^typ>\<open>string\<close> here.
\<close>

definition version_num :: "string \<Rightarrow> error + int" where
  "version_num tags_stdout =
     (let versions = sort (py_split tags_stdout) in
      if versions = [] then Inr 0
      else (case py_int (last (py_split_on CHR ''.'' (last versions))) of
              Inl e \<Rightarrow> Inl e
            | Inr n \<Rightarrow> Inr (n + 1)))"

text \<open>Lines 77-78: the release version; lines 201-203: the development version.\<close>

definition release_version :: "string \<Rightarrow> int \<Rightarrow> error + string" where
  "release_version series num = dotted_ints (py_join ''.'' [series, py_str num])"

definition next_version :: "string \<Rightarrow> int \<Rightarrow> error + string" where
  "next_version series num =
     (case dotted_ints (py_join ''.'' [series, py_str (num + 1)]) of
        Inl e \<Rightarrow> Inl e
      | Inr v \<Rightarrow> Inr (v @ ''.dev0''))"

section \<open>The process and its environment\<close>

text \<open>
  What the script can observe and change: the process environment variables, the
  process working directory, and the file system (the existing directories, and the
  regular files with their contents). \<open>trace\<close> records
  every effect performed, oldest first. Messages printed through \<^verbatim>\<open>_out\<close> are not
  modelled, and neither is the \<^verbatim>\<open>hide\<close> argument of \<^verbatim>\<open>invoke.run\<close>, which only
  decides whether a command's output is echoed.
\<close>

datatype event =
    Run string nat string
  | Putenv string string
  | Mkdtemp string
  | Chdir string
  | Rmtree string
  | Makedirs string
  | Move string string
  | Write string string

text \<open>\<open>Run cmd status stdout\<close>: a command handed to the shell, with what it returned.\<close>

record world =
  environ :: "string \<rightharpoonup> string"
  cwd :: string
  dirs :: "string list"
  files :: "(string \<times> string) list"
  trace :: "event list"

text \<open>
  What the script does not decide is taken from the host: the behaviour of external
  commands (exit status, standard output and what they leave on the file system, as a
  function of the command line and of the world they start in; a child process cannot
  change the working directory or the environment of the script), the clock, the name
  \<^verbatim>\<open>tempfile.mkdtemp\<close> picks, the iteration order of a Python \<^verbatim>\<open>set\<close> of strings
  (a ranking; ties are broken by the string order), the directory of the script
  (\<^verbatim>\<open>os.path.abspath(os.path.dirname(__file__))\<close>), and the entries of the file system
  that the process is not able to delete (permissions, files in use).
\<close>

record host =
  shell :: "string \<Rightarrow> world \<Rightarrow> nat \<times> string \<times> string list \<times> (string \<times> string) list"
  utc_year :: nat
  utc_month :: nat
  mkdtemp_name :: "world \<Rightarrow> string"
  set_rank :: "string \<Rightarrow> nat"
  module_dir :: string
  undeletable :: "world \<Rightarrow> string \<Rightarrow> bool"

text \<open>
  A statement of the script is a function from the world to a result and the new world.
  The world is returned on the exceptional exit too: a \<^verbatim>\<open>finally\<close> block runs in the
  world the exception left behind.
\<close>

type_synonym 'a io = "world \<Rightarrow> (error + 'a) \<times> world"

definition io_return :: "'a \<Rightarrow> 'a io" where
  "io_return a w = (Inr a, w)"

definition io_raise :: "error \<Rightarrow> 'a io" where
  "io_raise e w = (Inl e, w)"

definition io_lift :: "error + 'a \<Rightarrow> 'a io" where
  "io_lift r w = (r, w)"

definition io_bind :: "'a io \<Rightarrow> ('a \<Rightarrow> 'b io) \<Rightarrow> 'b io" where
  "io_bind m f w = (case m w of (Inl e, w') \<Rightarrow> (Inl e, w') | (Inr a, w') \<Rightarrow> f a w')"

definition io_then :: "'a io \<Rightarrow> 'b io \<Rightarrow> 'b io" where
  "io_then m n = io_bind m (\<lambda>_. n)"

text \<open>
  \<^verbatim>\<open>try: body finally: fin\<close>. The \<^verbatim>\<open>finally\<close> block runs however the body ended; an
  exception raised inside it replaces the outcome of the body.
\<close>

definition try_finally :: "'a io \<Rightarrow> unit io \<Rightarrow> 'a io" where
  "try_finally body fin w =
     (case body w of
        (r, w1) \<Rightarrow> (case fin w1 of (Inl e, w2) \<Rightarrow> (Inl e, w2) | (Inr u, w2) \<Rightarrow> (r, w2)))"

subsection \<open>Paths\<close>

definition norm_path :: "string \<Rightarrow> string" where
  "norm_path p = (if 1 < length p \<and> last p = CHR ''/'' then butlast p else p)"

definition path_join :: "string \<Rightarrow> string \<Rightarrow> string" where
  "path_join a b =
     (if b \<noteq> [] \<and> hd b = CHR ''/'' then b
      else if a = [] \<or> last a = CHR ''/'' then a @ b
      else a @ ''/'' @ b)"

definition basename :: "string \<Rightarrow> string" where
  "basename p = rev (takeWhile (\<lambda>c. c \<noteq> CHR ''/'') (rev p))"

definition dirname :: "string \<Rightarrow> string" where
  "dirname p =
     (let head = rev (dropWhile (\<lambda>c. c \<noteq> CHR ''/'') (rev p)) in
      if list_all (\<lambda>c. c = CHR ''/'') head then head
      else rev (dropWhile (\<lambda>c. c = CHR ''/'') (rev head)))"

definition abspath :: "world \<Rightarrow> string \<Rightarrow> string" where
  "abspath w p = norm_path (path_join (cwd w) p)"

definition is_dir :: "world \<Rightarrow> string \<Rightarrow> bool" where
  "is_dir w p = (norm_path p \<in> set (dirs w))"

definition is_file :: "world \<Rightarrow> string \<Rightarrow> bool" where
  "is_file w p = (p \<in> set (map fst (files w)))"

definition path_exists :: "world \<Rightarrow> string \<Rightarrow> bool" where
  "path_exists w p = (is_dir w p \<or> is_file w p)"

definition below :: "string \<Rightarrow> string \<Rightarrow> bool" where
  "below d q = (take (length d + 1) q = d @ ''/'')"

definition child_of :: "string \<Rightarrow> string \<Rightarrow> bool" where
  "child_of d q =
     (below d q \<and> length d + 1 < length q \<and> CHR ''/'' \<notin> set (drop (length d + 1) q))"

subsection \<open>Library calls\<close>

text \<open>
  \<^verbatim>\<open>invoke.run(cmd)\<close>: the command runs, and a nonzero exit status raises
  \<^verbatim>\<open>Failure\<close>; otherwise the result's \<^verbatim>\<open>stdout\<close> is returned.
\<close>

definition run :: "host \<Rightarrow> string \<Rightarrow> string io" where
  "run h cmd w =
     (case shell h cmd w of
        (status, out, ds, fs) \<Rightarrow>
          (if status = 0 then Inr out else Inl (Failure cmd status),
           w\<lparr>dirs := ds, files := fs, trace := trace w @ [Run cmd status out]\<rparr>))"

text \<open>\<^verbatim>\<open>os.environ[k] = v\<close>.\<close>

definition os_putenv :: "string \<Rightarrow> string \<Rightarrow> unit io" where
  "os_putenv k v w =
     (Inr (), w\<lparr>environ := (environ w)(k \<mapsto> v), trace := trace w @ [Putenv k v]\<rparr>)"

text \<open>\<^verbatim>\<open>os.getcwd()\<close> fails when the working directory has been removed.\<close>

definition os_getcwd :: "string io" where
  "os_getcwd w =
     (if is_dir w (cwd w) then (Inr (cwd w), w) else (Inl (OSError ''getcwd'' (cwd w)), w))"

text \<open>\<^verbatim>\<open>os.chdir(p)\<close> fails when \<open>p\<close> is not an existing directory.\<close>

definition os_chdir :: "string \<Rightarrow> unit io" where
  "os_chdir p w =
     (if is_dir w p then (Inr (), w\<lparr>cwd := p, trace := trace w @ [Chdir p]\<rparr>)
      else (Inl (OSError ''chdir'' p), w))"

text \<open>
  \<^verbatim>\<open>tempfile.mkdtemp()\<close> creates a directory that did not exist and returns its path.
\<close>

definition mkdtemp :: "host \<Rightarrow> string io" where
  "mkdtemp h w =
     (let p = mkdtemp_name h w in
      if path_exists w p then (Inl (OSError ''mkdtemp'' p), w)
      else (Inr p, w\<lparr>dirs := dirs w @ [norm_path p], trace := trace w @ [Mkdtemp p]\<rparr>))"

text \<open>
  \<^verbatim>\<open>shutil.rmtree(p, ignore_errors=True)\<close> deletes what it can of the directory and of
  everything below it, and never raises: an entry that cannot be deleted stays, and so
  does every directory above it, which is not empty then (\<open>stuck\<close>). When \<open>p\<close> is not
  a directory the error is swallowed as well and nothing changes.
\<close>

definition stuck :: "host \<Rightarrow> world \<Rightarrow> string \<Rightarrow> bool" where
  "stuck h w q =
     list_ex (\<lambda>x. (x = q \<or> below q x) \<and> undeletable h w x) (dirs w @ map fst (files w))"

definition rmtree :: "host \<Rightarrow> string \<Rightarrow> unit io" where
  "rmtree h p w =
     (let d = norm_path p in
      (Inr (),
       (if is_dir w p then
          w\<lparr>dirs := filter (\<lambda>q. (q \<noteq> d \<and> \<not> below d q) \<or> stuck h w q) (dirs w),
            files := filter (\<lambda>(q, c). \<not> below d q \<or> stuck h w q) (files w)\<rparr>
        else w)\<lparr>trace := trace w @ [Rmtree p]\<rparr>))"

text \<open>\<^verbatim>\<open>os.makedirs(p)\<close> fails when the path exists already.\<close>

definition os_makedirs :: "string \<Rightarrow> unit io" where
  "os_makedirs p w =
     (let d = abspath w p in
      if path_exists w d then (Inl (OSError ''makedirs'' d), w)
      else (Inr (), w\<lparr>dirs := dirs w @ [d], trace := trace w @ [Makedirs d]\<rparr>))"

text \<open>\<^verbatim>\<open>os.listdir(p)\<close>: the names of the entries of a directory.\<close>

definition os_listdir :: "string \<Rightarrow> string list io" where
  "os_listdir p w =
     (let d = abspath w p in
      if is_dir w d then
        (Inr (map (drop (length d + 1))
                (filter (child_of d) (dirs w @ map fst (files w)))), w)
      else (Inl (OSError ''listdir'' d), w))"

text \<open>
  \<^verbatim>\<open>shutil.move(src, dst)\<close>: into \<open>dst\<close> when that is a directory, onto \<open>dst\<close>
  otherwise. It fails when the source is missing, when the target below an existing
  directory exists, and when a directory would replace a regular file.
\<close>

definition rename_path :: "string \<Rightarrow> string \<Rightarrow> string \<Rightarrow> string" where
  "rename_path s t q = (if q = s \<or> below s q then t @ drop (length s) q else q)"

definition shutil_move :: "string \<Rightarrow> string \<Rightarrow> unit io" where
  "shutil_move src dst w =
     (let s = norm_path src;
          t = norm_path (if is_dir w dst then path_join dst (basename s) else dst)
      in
      if \<not> path_exists w s then (Inl (OSError ''move'' src), w)
      else if is_dir w dst \<and> path_exists w t then (Inl (OSError ''move'' t), w)
      else if is_dir w s \<and> is_file w t then (Inl (OSError ''move'' t), w)
      else
        (Inr (),
         w\<lparr>dirs := map (rename_path s t) (dirs w),
           files := map (\<lambda>(q, c). (rename_path s t q, c))
                      (filter (\<lambda>(q, c). q \<noteq> t) (files w)),
           trace := trace w @ [Move src dst]\<rparr>))"

text \<open>
  \<^verbatim>\<open>with open(path, "w") as f: f.write(content)\<close> fails when the path is a directory
  or its parent directory does not exist.
\<close>

definition write_file :: "string \<Rightarrow> string \<Rightarrow> unit io" where
  "write_file path content w =
     (if is_dir w path \<or> \<not> is_dir w (dirname path) then (Inl (OSError ''open'' path), w)
      else (Inr (),
            w\<lparr>files := (path, content) # filter (\<lambda>(q, c). q \<noteq> path) (files w),
              trace := trace w @ [Write path content]\<rparr>))"

text \<open>
  Iterating over a Python \<^verbatim>\<open>set\<close> of strings visits each element once, in an order
  the program does not control: here by the host's ranking.
\<close>

definition set_iter :: "host \<Rightarrow> string list \<Rightarrow> string list" where
  "set_iter h xs = sort_key (set_rank h) (sort (remdups xs))"

section \<open>The tasks\<close>

subsection \<open>\<^verbatim>\<open>release.test\<close>\<close>

text \<open>Lines 54-56: one \<^verbatim>\<open>tox -e env\<close> per environment, stopping at the first failure.\<close>

fun run_envs :: "host \<Rightarrow> string list \<Rightarrow> unit io" where
  "run_envs h [] = io_return ()"
| "run_envs h (env # envs) = io_then (run h (''tox -e '' @ env)) (run_envs h envs)"

definition with_slash :: "string \<Rightarrow> string" where
  "with_slash tmpdir = (if endswith_slash tmpdir then tmpdir else tmpdir @ ''/'')"

definition test_body :: "host \<Rightarrow> string \<Rightarrow> unit io" where
  "test_body h tmpdir =
     io_then (run h (''git checkout-index -f -a --prefix='' @ tmpdir))
    (io_then (os_chdir tmpdir)
    (io_bind (run h ''tox -l'') (\<lambda>out.
     run_envs h (set_iter h (filter (\<lambda>env. env \<noteq> ''packaging'') (py_split out))))))"

text \<open>Lines 58-59 and 197-198, the \<^verbatim>\<open>finally\<close> block of both tasks.\<close>

definition cleanup :: "host \<Rightarrow> string \<Rightarrow> string \<Rightarrow> unit io" where
  "cleanup h curdir tmpdir = io_then (os_chdir curdir) (rmtree h tmpdir)"

definition release_test :: "host \<Rightarrow> string option \<Rightarrow> bool \<Rightarrow> unit io" where
  "release_test h database verbose =
     io_then (case database of
                None \<Rightarrow> io_return ()
              | Some d \<Rightarrow> if d = [] then io_return ()
                          else os_putenv ''WAREHOUSE_DATABASE_URL'' d)
    (io_bind os_getcwd (\<lambda>curdir.
     io_bind (mkdtemp h) (\<lambda>t.
     try_finally (test_body h (with_slash t)) (cleanup h curdir (with_slash t)))))"

subsection \<open>\<^verbatim>\<open>release.build\<close>\<close>

text \<open>
  The template of \<^verbatim>\<open>warehouse/__about__.py\<close> after \<^verbatim>\<open>textwrap.dedent\<close>, with its two
  fields filled in by \<^verbatim>\<open>format\<close>: it starts with the newline that follows the opening
  quotes, and every line ends with a newline.
\<close>

definition about_lines :: "string \<Rightarrow> string \<Rightarrow> string list" where
  \<open>about_lines version build =
    [''# Copyright 2013 Donald Stufft'',
     ''#'',
     ''# Licensed under the Apache License, Version 2.0 (the "License");'',
     ''# you may not use this file except in compliance with the License.'',
     ''# You may obtain a copy of the License at'',
     ''#'',
     ''# http://www.apache.org/licenses/LICENSE-2.0'',
     ''#'',
     ''# Unless required by applicable law or agreed to in writing, software'',
     ''# distributed under the License is distributed on an "AS IS" BASIS,'',
     ''# WITHOUT WARRANTIES OR CONDITIONS OF ANY KIND, either express or implied.'',
     ''# See the License for the specific language governing permissions and'',
     ''# limitations under the License.'',
     ''from __future__ import absolute_import, division, print_function'',
     ''from __future__ import unicode_literals'',
     [],
     ''# This file is automatically generated, do not edit it'',
     [],
     [],
     ''__all__ = ['',
     ''    "__title__", "__summary__", "__uri__", "__version__",'',
     ''    "__author__", "__email__", "__license__", "__copyright__",'',
     '']'',
     [],
     ''__title__ = "warehouse"'',
     ''__summary__ = "Next Generation Python Package Repository"'',
     ''__uri__ = "https://github.com/dstufft/warehouse"'',
     [],
     ''__version__ = "'' @ version @ ''"'',
     ''__build__ = "'' @ build @ ''"'',
     [],
     ''__author__ = "Donald Stufft"'',
     ''__email__ = "donald@stufft.io"'',
     [],
     ''__license__ = "Apache License, Version 2.0"'',
     ''__copyright__ = "Copyright 2013 Donald Stufft"'']\<close>

definition about_format :: "string \<Rightarrow> string \<Rightarrow> string" where
  "about_format version build =
     CHR 0x0A # concat (map (\<lambda>l. l @ [CHR 0x0A]) (about_lines version build))"

definition about_path :: "host \<Rightarrow> string" where
  "about_path h = path_join (path_join (module_dir h) ''warehouse'') ''__about__.py''"

text \<open>Lines 131-135 and 205-209: the rendered template, left-stripped, is written.\<close>

definition write_about :: "host \<Rightarrow> string \<Rightarrow> string \<Rightarrow> unit io" where
  "write_about h version build =
     write_file (about_path h) (py_lstrip (about_format version build))"

text \<open>Lines 72-78: the version series, the counter and the release version.\<close>

definition determine_version :: "host \<Rightarrow> (string \<times> int \<times> string) io" where
  "determine_version h =
     io_bind (io_lift (version_series (utc_year h) (utc_month h))) (\<lambda>series.
     io_bind (run h (''git tag -l 'v'' @ series @ ''.*'' @ [CHR 0x27])) (\<lambda>tags.
     io_bind (io_lift (version_num tags)) (\<lambda>num.
     io_bind (io_lift (release_version series num)) (\<lambda>version.
     io_return (series, num, version)))))"

text \<open>Line 82: the build tag.\<close>

definition determine_build_tag :: "host \<Rightarrow> string io" where
  "determine_build_tag h = io_bind (run h ''git rev-parse HEAD'') (\<lambda>out. io_return (take 7 out))"

text \<open>Lines 130-147: the release metadata is written and committed, the tag is created.\<close>

definition commit_release :: "host \<Rightarrow> string \<Rightarrow> string \<Rightarrow> unit io" where
  "commit_release h version build_tag =
     io_then (write_about h version build_tag)
    (io_then (run h ''git add warehouse/__about__.py'')
    (io_then (run h (''git commit -m 'Generate the release __about__.py (version='' @ version
                      @ '' build='' @ build_tag @ '')'' @ [CHR 0x27]))
    (io_then (run h (''git tag -s -m 'Released version v'' @ version @ '' ('' @ build_tag
                      @ '')' v'' @ version))
     (io_return ()))))"

text \<open>
  Lines 181-185: each distribution is built, and the name of the file it added to
  \<^verbatim>\<open>dist\<close> is taken with \<^verbatim>\<open>pop\<close>, which raises \<^verbatim>\<open>KeyError\<close> when nothing was added.
\<close>

fun build_dists :: "host \<Rightarrow> string list \<Rightarrow> unit io" where
  "build_dists h [] = io_return ()"
| "build_dists h (dist_type # rest) =
     io_bind (os_listdir ''dist'') (\<lambda>filenames.
     io_then (run h (''python setup.py '' @ dist_type))
    (io_bind (os_listdir ''dist'') (\<lambda>after.
     if filter (\<lambda>n. n \<notin> set filenames) after = []
     then io_raise (KeyError ''pop from an empty set'')
     else build_dists h rest)))"

text \<open>Lines 154-195, the body of the \<^verbatim>\<open>try\<close> statement.\<close>

definition export_body :: "host \<Rightarrow> string \<Rightarrow> string \<Rightarrow> string \<Rightarrow> unit io" where
  "export_body h version curdir tmpdir =
     io_bind (run h ''git rev-parse --abbrev-ref HEAD'') (\<lambda>out.
     io_then (run h (''git checkout v'' @ version))
    (io_then (run h (''git checkout-index -f -a --prefix='' @ tmpdir))
    (io_then (run h (''git checkout '' @ py_strip out))
    (io_then (os_chdir tmpdir)
    (io_then (os_makedirs ''dist'')
    (io_then (build_dists h [''sdist'', ''bdist_wheel''])
    (io_then (os_chdir curdir)
    (io_then (\<lambda>w. rmtree h (abspath w ''dist'') w)
             (\<lambda>w. shutil_move (path_join tmpdir ''dist'') (abspath w ''dist'') w)))))))))"

text \<open>Lines 149-198.\<close>

definition export_dists :: "host \<Rightarrow> string \<Rightarrow> unit io" where
  "export_dists h version =
     io_bind os_getcwd (\<lambda>curdir.
     io_bind (mkdtemp h) (\<lambda>t.
     try_finally (export_body h version curdir (with_slash t))
                 (cleanup h curdir (with_slash t))))"

text \<open>Lines 200-218: the development metadata is written and committed.\<close>

definition commit_development :: "host \<Rightarrow> string \<Rightarrow> int \<Rightarrow> unit io" where
  "commit_development h series num =
     io_bind (io_lift (next_version series num)) (\<lambda>next.
     io_then (write_about h next ''<development>'')
    (io_then (run h ''git add warehouse/__about__.py'')
    (io_then (run h (''git commit -m 'Generate the development __about__.py'' @ [CHR 0x27]))
     (io_return ()))))"

definition release_build :: "host \<Rightarrow> bool \<Rightarrow> unit io" where
  "release_build h verbose =
     io_bind (determine_version h) (\<lambda>(series, num, version).
     io_bind (determine_build_tag h) (\<lambda>build_tag.
     io_then (commit_release h version build_tag)
    (io_then (export_dists h version)
             (commit_development h series num))))"

subsection \<open>\<^verbatim>\<open>release.upload\<close>\<close>

definition release_upload :: "host \<Rightarrow> string option \<Rightarrow> bool \<Rightarrow> unit io" where
  "release_upload h repository verbose =
     io_then (run h (''twine upload --sign''
                      @ (case repository of None \<Rightarrow> [] | Some r \<Rightarrow> '' -r '' @ r)
                      @ '' dist/*''))
             (io_return ())"

subsection \<open>\<^verbatim>\<open>release.all\<close> and the task collection\<close>

text \<open>
  A task registered with \<^verbatim>\<open>invoke.task\<close> has a name, the names of its pre-tasks and
  a body. Executing a task runs its pre-tasks in the order listed and then its body,
  each with the keyword arguments of the invocation (every body accepts and ignores
  the ones it does not use, through \<^verbatim>\<open>**kwargs\<close>); an exception ends the execution.
\<close>

record args =
  repository :: "string option"
  database :: "string option"
  verbose :: bool

record task =
  task_name :: string
  task_pre :: "string list"
  task_body :: "host \<Rightarrow> args \<Rightarrow> unit io"

definition release_all :: "host \<Rightarrow> string option \<Rightarrow> string option \<Rightarrow> bool \<Rightarrow> unit io" where
  "release_all h repo db verb = io_return ()"

definition ns :: "(string \<times> task) list" where
  "ns =
    [(''release.test'',
      \<lparr>task_name = ''test'', task_pre = [],
       task_body = (\<lambda>h a. release_test h (database a) (verbose a))\<rparr>),
     (''release.build'',
      \<lparr>task_name = ''build'', task_pre = [],
       task_body = (\<lambda>h a. release_build h (verbose a))\<rparr>),
     (''release.upload'',
      \<lparr>task_name = ''upload'', task_pre = [],
       task_body = (\<lambda>h a. release_upload h (repository a) (verbose a))\<rparr>),
     (''release.all'',
      \<lparr>task_name = ''all'',
       task_pre = [''release.test'', ''release.build'', ''release.upload''],
       task_body = (\<lambda>h a. release_all h (repository a) (database a) (verbose a))\<rparr>)]"

fun run_tasks :: "(string \<times> task) list \<Rightarrow> host \<Rightarrow> args \<Rightarrow> string list \<Rightarrow> unit io" where
  "run_tasks coll h a [] = io_return ()"
| "run_tasks coll h a (name # names) =
     io_then (case map_of coll name of
                None \<Rightarrow> io_raise (KeyError name)
              | Some t \<Rightarrow> task_body t h a)
             (run_tasks coll h a names)"

definition execute :: "(string \<times> task) list \<Rightarrow> host \<Rightarrow> args \<Rightarrow> string \<Rightarrow> unit io" where
  "execute coll h a name =
     (case map_of coll name of
        None \<Rightarrow> io_raise (KeyError name)
      | Some t \<Rightarrow> run_tasks coll h a (task_pre t @ [name]))"
section \<open>Observations on runs\<close>

text \<open>
  The events a statement added to the trace, and the predicates on events the
  properties below speak about.
\<close>

definition emitted :: "world \<Rightarrow> world \<Rightarrow> event list" where
  "emitted w w' = drop (length (trace w)) (trace w')"

fun failed :: "event \<Rightarrow> bool" where
  "failed (Run cmd status out) = (status \<noteq> 0)"
| "failed ev = False"

fun is_run :: "event \<Rightarrow> bool" where
  "is_run (Run cmd status out) = True"
| "is_run ev = False"

fun is_mkdtemp :: "event \<Rightarrow> bool" where
  "is_mkdtemp (Mkdtemp p) = True"
| "is_mkdtemp ev = False"


text \<open>The test environments run: the arguments of the \<^verbatim>\<open>tox -e\<close> commands, in order.\<close>

fun tox_env :: "event \<Rightarrow> string option" where
  "tox_env (Run cmd status out) =
     (if take 7 cmd = ''tox -e '' then Some (drop 7 cmd) else None)"
| "tox_env ev = None"

definition tox_runs :: "event list \<Rightarrow> string list" where
  "tox_runs evs = List.map_filter tox_env evs"

text \<open>
  \<open>emits m P\<close>: whatever the world, \<open>m\<close> only appends events to the trace, and its
  outcome and the events it appended satisfy \<open>P\<close>.
\<close>

definition emits :: "'a io \<Rightarrow> (error + 'a \<Rightarrow> event list \<Rightarrow> bool) \<Rightarrow> bool" where
  "emits m P = (\<forall>w. \<exists>evs. trace (snd (m w)) = trace w @ evs \<and> P (fst (m w)) evs)"

text \<open>\<open>keeps f m\<close>: \<open>m\<close> leaves the component \<open>f\<close> of the world as it was.\<close>

definition keeps :: "(world \<Rightarrow> 'b) \<Rightarrow> 'a io \<Rightarrow> bool" where
  "keeps f m = (\<forall>w. f (snd (m w)) = f w)"

text \<open>
  A run stops at the first command that fails: no event of the trace failed, or the
  statement raised and the failing command is the last event.
\<close>

definition stops_at_failure :: "error + 'a \<Rightarrow> event list \<Rightarrow> bool" where
  "stops_at_failure r evs =
     (list_all (\<lambda>ev. \<not> failed ev) evs \<or>
      (isl r \<and> (\<exists>pre ev. evs = pre @ [ev] \<and> list_all (\<lambda>ev. \<not> failed ev) pre \<and> failed ev)))"

text \<open>
  The same, where the failing command may be followed by the events of the cleanup
  block and by nothing else.
\<close>

definition cleanup_events :: "event list \<Rightarrow> bool" where
  "cleanup_events post = (post = [] \<or> (\<exists>d p. post = [Chdir d, Rmtree p]))"

definition aborts_cleanly :: "error + 'a \<Rightarrow> event list \<Rightarrow> bool" where
  "aborts_cleanly r evs =
     (list_all (\<lambda>ev. \<not> failed ev) evs \<or>
      (isl r \<and> (\<exists>pre ev post. evs = pre @ ev # post \<and> list_all (\<lambda>ev. \<not> failed ev) pre
                  \<and> failed ev \<and> cleanup_events post)))"


text \<open>Every event a statement appended satisfies \<open>K\<close>.\<close>

definition only :: "(event \<Rightarrow> bool) \<Rightarrow> error + 'a \<Rightarrow> event list \<Rightarrow> bool" where
  "only K r evs = list_all K evs"

text \<open>
  \<open>relates m R\<close>: whatever the world \<open>w\<close>, the outcome \<open>r\<close> of \<open>m\<close> and the world
  \<open>w'\<close> it leaves satisfy \<open>R w r w'\<close>.
\<close>

definition relates :: "'a io \<Rightarrow> (world \<Rightarrow> error + 'a \<Rightarrow> world \<Rightarrow> bool) \<Rightarrow> bool" where
  "relates m R = (\<forall>w. R w (fst (m w)) (snd (m w)))"

text \<open>
  The outcome of a task whose cleanup block could not change back to the directory the
  task was started in: \<^verbatim>\<open>os.chdir(curdir)\<close> raised, and nothing after it ran.
\<close>

definition chdir_back_failed :: "world \<Rightarrow> error + 'a \<Rightarrow> bool" where
  "chdir_back_failed w r = (r = Inl (OSError ''chdir'' (cwd w)))"

text \<open>A statement that keeps the working directory and creates no temporary directory.\<close>

definition quietly :: "world \<Rightarrow> error + 'a \<Rightarrow> world \<Rightarrow> bool" where
  "quietly w r w' =
     (cwd w' = cwd w \<and>
      (\<exists>evs. trace w' = trace w @ evs \<and> list_all (\<lambda>ev. \<not> is_mkdtemp ev) evs))"

text \<open>
  A statement that is back in its working directory when it ends, and whose last action
  was \<^verbatim>\<open>rmtree\<close> on the temporary directory it created; or its cleanup block could not
  change back.
\<close>

definition scoped_tmpdir :: "world \<Rightarrow> error + 'a \<Rightarrow> world \<Rightarrow> bool" where
  "scoped_tmpdir w r w' =
     (\<exists>evs. trace w' = trace w @ evs \<and>
        (chdir_back_failed w r \<or>
         (cwd w' = cwd w \<and>
          (\<forall>p. Mkdtemp p \<in> set evs \<longrightarrow>
             (\<exists>pre mid. evs = pre @ Mkdtemp p # mid @ [Chdir (cwd w), Rmtree (with_slash p)])))))"

text \<open>The same, where the call of \<^verbatim>\<open>rmtree\<close> may be followed by further events.\<close>

definition rmtree_called :: "world \<Rightarrow> error + 'a \<Rightarrow> world \<Rightarrow> bool" where
  "rmtree_called w r w' =
     (\<exists>evs. trace w' = trace w @ evs \<and>
        (chdir_back_failed w r \<or>
         (cwd w' = cwd w \<and>
          (\<forall>p. Mkdtemp p \<in> set evs \<longrightarrow>
             (\<exists>pre post. evs = pre @ Mkdtemp p # post \<and> Rmtree (with_slash p) \<in> set post)))))"

text \<open>
  A task aborts on a failing command: whenever one of the commands it ran exited with
  a nonzero status, the task raised, no command before that one had failed, and the
  only events after it are those of the cleanup block.
\<close>

definition aborts_on_failure :: "unit io \<Rightarrow> bool" where
  "aborts_on_failure task =
     (\<forall>w ev. ev \<in> set (emitted w (snd (task w))) \<and> failed ev \<longrightarrow>
        isl (fst (task w)) \<and>
        (\<exists>pre post. emitted w (snd (task w)) = pre @ ev # post
           \<and> list_all (\<lambda>e. \<not> failed e) pre
           \<and> list_all (\<lambda>e. \<not> is_run e) post
           \<and> cleanup_events post))"

text \<open>
  The listings of a run: the output of every \<^verbatim>\<open>tox -l\<close> command that succeeded, in
  order.
\<close>

fun tox_listing :: "event \<Rightarrow> string option" where
  "tox_listing (Run cmd status out) =
     (if cmd = ''tox -l'' \<and> status = 0 then Some out else None)"
| "tox_listing ev = None"

definition listings :: "event list \<Rightarrow> string list" where
  "listings evs = List.map_filter tox_listing evs"

text \<open>
  What a run of the test task shows about the test environments: no environment is
  run twice and \<^verbatim>\<open>packaging\<close> is never run. Either the task raised with no listing
  obtained and no environment run; or there is exactly one listing, every environment
  run is one of those it lists, and when the task returns all of those but
  \<^verbatim>\<open>packaging\<close> were run.
\<close>

definition runs_listed_envs :: "error + unit \<Rightarrow> event list \<Rightarrow> bool" where
  "runs_listed_envs r evs =
     (distinct (tox_runs evs) \<and> ''packaging'' \<notin> set (tox_runs evs) \<and>
      ((listings evs = [] \<and> tox_runs evs = [] \<and> r \<noteq> Inr ()) \<or>
       (\<exists>out. listings evs = [out] \<and>
          set (tox_runs evs) \<subseteq> set (py_split out) - {''packaging''} \<and>
          (r = Inr () \<longrightarrow> set (tox_runs evs) = set (py_split out) - {''packaging''}))))"








section \<open>Example hosts\<close>

text \<open>
  A host on which every command succeeds and everything can be deleted: the test
  runner lists three environments, the series has two tags, and \<^verbatim>\<open>setup.py\<close> leaves
  one new file in \<^verbatim>\<open>dist\<close>.
\<close>

definition example_shell ::
  "string \<Rightarrow> world \<Rightarrow> nat \<times> string \<times> string list \<times> (string \<times> string) list" where
  "example_shell cmd w =
     (if cmd = ''tox -l'' then
        (0, ''py27'' @ [CHR 0x0A] @ ''packaging'' @ [CHR 0x0A] @ ''docs'' @ [CHR 0x0A],
         dirs w, files w)
      else if cmd = ''git rev-parse HEAD'' then
        (0, ''0123456789abcdef'' @ [CHR 0x0A], dirs w, files w)
      else if cmd = ''git tag -l 'v13.5.*'' @ [CHR 0x27] then
        (0, ''v13.5.0'' @ [CHR 0x0A] @ ''v13.5.1'' @ [CHR 0x0A], dirs w, files w)
      else if cmd = ''git rev-parse --abbrev-ref HEAD'' then
        (0, ''master'' @ [CHR 0x0A], dirs w, files w)
      else if take 16 cmd = ''python setup.py '' then
        (0, [], dirs w, (path_join (path_join (cwd w) ''dist'') (drop 16 cmd), []) # files w)
      else (0, [], dirs w, files w))"

definition example_host :: host where
  "example_host =
     \<lparr>shell = example_shell, utc_year = 2013, utc_month = 5,
      mkdtemp_name = (\<lambda>w. ''/tmp/tmpx''), set_rank = length, module_dir = ''/repo'',
      undeletable = (\<lambda>w p. False)\<rparr>"

definition example_world :: world where
  "example_world =
     \<lparr>environ = Map.empty, cwd = ''/repo'',
      dirs = [''/repo'', ''/repo/warehouse'', ''/tmp''], files = [], trace = []\<rparr>"

text \<open>The same host, except that the \<^verbatim>\<open>docs\<close> environment fails.\<close>

definition failing_shell ::
  "string \<Rightarrow> world \<Rightarrow> nat \<times> string \<times> string list \<times> (string \<times> string) list" where
  "failing_shell cmd w =
     (if cmd = ''tox -e docs'' then (1, [], dirs w, files w) else example_shell cmd w)"

definition failing_host :: host where
  "failing_host = example_host\<lparr>shell := failing_shell\<rparr>"

text \<open>
  The same host, except that listing the test environments removes the directory
  the task was started in.
\<close>

definition removing_shell ::
  "string \<Rightarrow> world \<Rightarrow> nat \<times> string \<times> string list \<times> (string \<times> string) list" where
  "removing_shell cmd w =
     (if cmd = ''tox -l'' then
        (0, ''py27'' @ [CHR 0x0A], filter (\<lambda>d. d \<noteq> ''/repo'') (dirs w), files w)
      else example_shell cmd w)"

definition removing_host :: host where
  "removing_host = example_host\<lparr>shell := removing_shell\<rparr>"


section \<open>Properties of the string functions\<close>


























text \<open>Evaluating the model on the example hosts.\<close>

lemmas string_eval =
  py_split_def isspace_def py_split_on_def py_int_def digits_value_def isdigit_def
  py_str_def str_nat.simps digit_char_def dotted_ints_def pad2_def strftime_ym_def
  version_series_def version_num_def release_version_def next_version_def
  py_lstrip_def py_strip_def endswith_slash_def

lemmas io_eval =
  io_return_def io_raise_def io_lift_def io_bind_def io_then_def try_finally_def
  run_def os_putenv_def os_getcwd_def os_chdir_def mkdtemp_def rmtree_def stuck_def
  os_makedirs_def
  os_listdir_def shutil_move_def write_file_def set_iter_def
  norm_path_def path_join_def basename_def dirname_def abspath_def is_dir_def is_file_def
  path_exists_def below_def child_of_def rename_path_def with_slash_def Let_def

lemmas host_eval =
  example_shell_def example_host_def example_world_def failing_shell_def failing_host_def
  removing_shell_def removing_host_def

section \<open>Reasoning about traces\<close>

text \<open>The rules that follow give the events of a compound statement from its parts.\<close>

lemma emitsI:
  "(\<And>w. \<exists>evs. trace (snd (m w)) = trace w @ evs \<and> P (fst (m w)) evs) \<Longrightarrow> emits m P"
  by (simp add: emits_def)

lemma emitsD:
  "emits m P \<Longrightarrow> \<exists>evs. trace (snd (m w)) = trace w @ evs \<and> P (fst (m w)) evs"
  by (simp add: emits_def)

lemma emits_emitted:
  assumes "emits m P"
  shows "trace (snd (m w)) = trace w @ emitted w (snd (m w))" and "P (fst (m w)) (emitted w (snd (m w)))"
proof -
  from emitsD [OF assms, of w] obtain evs
    where e: "trace (snd (m w)) = trace w @ evs" and p: "P (fst (m w)) evs" by blast
  from e have "emitted w (snd (m w)) = evs" by (simp add: emitted_def)
  with e p show "trace (snd (m w)) = trace w @ emitted w (snd (m w))"
    and "P (fst (m w)) (emitted w (snd (m w)))" by simp_all
qed

lemma emits_weaken:
  "emits m P \<Longrightarrow> (\<And>r evs. P r evs \<Longrightarrow> Q r evs) \<Longrightarrow> emits m Q"
  unfolding emits_def by blast

lemma emits_conj:
  assumes "emits m P" and "emits m Q"
  shows "emits m (\<lambda>r evs. P r evs \<and> Q r evs)"
proof (rule emitsI)
  fix w
  from emits_emitted [OF assms(1), of w] emits_emitted [OF assms(2), of w]
  show "\<exists>evs. trace (snd (m w)) = trace w @ evs \<and> P (fst (m w)) evs \<and> Q (fst (m w)) evs"
    by blast
qed

lemma emits_return: "P (Inr a) [] \<Longrightarrow> emits (io_return a) P"
  by (simp add: emits_def io_return_def)

lemma emits_raise: "P (Inl e) [] \<Longrightarrow> emits (io_raise e) P"
  by (simp add: emits_def io_raise_def)

lemma emits_lift: "P r [] \<Longrightarrow> emits (io_lift r) P"
  by (simp add: emits_def io_lift_def)

lemma emits_bind:
  assumes m: "emits m P" and f: "\<And>a. emits (f a) (Q a)"
  shows "emits (io_bind m f)
           (\<lambda>r evs. (\<exists>e. r = Inl e \<and> P (Inl e) evs) \<or>
                    (\<exists>a e1 e2. evs = e1 @ e2 \<and> P (Inr a) e1 \<and> Q a r e2))"
proof (rule emitsI)
  fix w
  obtain r1 w1 where mw: "m w = (r1, w1)" by (cases "m w")
  from emitsD [OF m, of w] mw obtain e1
    where t1: "trace w1 = trace w @ e1" and p1: "P r1 e1" by auto
  show "\<exists>evs. trace (snd (io_bind m f w)) = trace w @ evs \<and>
          ((\<exists>e. fst (io_bind m f w) = Inl e \<and> P (Inl e) evs) \<or>
           (\<exists>a e1 e2. evs = e1 @ e2 \<and> P (Inr a) e1 \<and> Q a (fst (io_bind m f w)) e2))"
  proof (cases r1)
    case (Inl e)
    with mw t1 p1 show ?thesis by (auto simp: io_bind_def)
  next
    case (Inr a)
    from emitsD [OF f, of a w1] obtain e2
      where t2: "trace (snd (f a w1)) = trace w1 @ e2" and p2: "Q a (fst (f a w1)) e2" by blast
    have "io_bind m f w = f a w1" using mw Inr by (simp add: io_bind_def)
    with t1 t2 p1 p2 Inr show ?thesis by auto
  qed
qed

lemma emits_then:
  assumes m: "emits m P" and n: "emits n Q"
  shows "emits (io_then m n)
           (\<lambda>r evs. (\<exists>e. r = Inl e \<and> P (Inl e) evs) \<or>
                    (\<exists>a e1 e2. evs = e1 @ e2 \<and> P (Inr a) e1 \<and> Q r e2))"
  unfolding io_then_def using emits_bind [OF m, of "\<lambda>_. n" "\<lambda>_. Q"] n by simp

lemma emits_try_finally:
  assumes b: "emits body P" and f: "emits fin F"
  shows "emits (try_finally body fin)
           (\<lambda>r evs. \<exists>rb e1 rf e2. evs = e1 @ e2 \<and> P rb e1 \<and> F rf e2 \<and>
                      r = (case rf of Inl e \<Rightarrow> Inl e | Inr u \<Rightarrow> rb))"
proof (rule emitsI)
  fix w
  obtain rb w1 where bw: "body w = (rb, w1)" by (cases "body w")
  obtain rf w2 where fw: "fin w1 = (rf, w2)" by (cases "fin w1")
  from emitsD [OF b, of w] bw obtain e1
    where t1: "trace w1 = trace w @ e1" and p1: "P rb e1" by auto
  from emitsD [OF f, of w1] fw obtain e2
    where t2: "trace w2 = trace w1 @ e2" and p2: "F rf e2" by auto
  have "try_finally body fin w = ((case rf of Inl e \<Rightarrow> Inl e | Inr u \<Rightarrow> rb), w2)"
    using bw fw by (simp add: try_finally_def split: sum.splits)
  with t1 t2 p1 p2 show "\<exists>evs. trace (snd (try_finally body fin w)) = trace w @ evs \<and>
      (\<exists>rb e1 rf e2. evs = e1 @ e2 \<and> P rb e1 \<and> F rf e2 \<and>
         fst (try_finally body fin w) = (case rf of Inl e \<Rightarrow> Inl e | Inr u \<Rightarrow> rb))"
    by auto
qed

lemma emits_at_world:
  "(\<And>x. emits (m x) P) \<Longrightarrow> emits (\<lambda>w. m (g w) w) P"
  unfolding emits_def by blast

lemma emits_run:
  "emits (run h cmd)
     (\<lambda>r evs. \<exists>status out. evs = [Run cmd status out] \<and>
                r = (if status = 0 then Inr out else Inl (Failure cmd status)))"
  by (rule emitsI) (auto simp: run_def split: prod.splits)

lemma emits_putenv: "emits (os_putenv k v) (\<lambda>r evs. r = Inr () \<and> evs = [Putenv k v])"
  by (rule emitsI) (simp add: os_putenv_def)

lemma emits_getcwd: "emits os_getcwd (\<lambda>r evs. evs = [])"
  by (rule emitsI) (simp add: os_getcwd_def)

lemma emits_chdir:
  "emits (os_chdir p)
     (\<lambda>r evs. (r = Inr () \<and> evs = [Chdir p]) \<or> (r = Inl (OSError ''chdir'' p) \<and> evs = []))"
  by (rule emitsI) (simp add: os_chdir_def)

lemma emits_mkdtemp:
  "emits (mkdtemp h) (\<lambda>r evs. (\<exists>p. r = Inr p \<and> evs = [Mkdtemp p]) \<or> (isl r \<and> evs = []))"
  by (rule emitsI) (simp add: mkdtemp_def Let_def)

lemma emits_rmtree: "emits (rmtree h p) (\<lambda>r evs. r = Inr () \<and> evs = [Rmtree p])"
  by (rule emitsI) (simp add: rmtree_def Let_def)

lemma emits_makedirs:
  "emits (os_makedirs p) (\<lambda>r evs. (r = Inr () \<and> (\<exists>d. evs = [Makedirs d])) \<or> (isl r \<and> evs = []))"
  by (rule emitsI) (simp add: os_makedirs_def Let_def)

lemma emits_listdir: "emits (os_listdir p) (\<lambda>r evs. evs = [])"
  by (rule emitsI) (simp add: os_listdir_def Let_def)

lemma emits_move:
  "emits (shutil_move src dst)
     (\<lambda>r evs. (r = Inr () \<and> evs = [Move src dst]) \<or> (isl r \<and> evs = []))"
  by (rule emitsI) (simp add: shutil_move_def Let_def)

lemma emits_write:
  "emits (write_file p c)
     (\<lambda>r evs. (r = Inr () \<and> evs = [Write p c]) \<or> (r = Inl (OSError ''open'' p) \<and> evs = []))"
  by (rule emitsI) (simp add: write_file_def)

lemma emits_case_prod:
  "(\<And>a b. emits (f a b) P) \<Longrightarrow> emits (case_prod f x) P"
  by (cases x) simp

lemma emits_case_prod3:
  "(\<And>a b c. emits (f a b c) P) \<Longrightarrow> emits (case x of (a, b, c) \<Rightarrow> f a b c) P"
  by (cases x) simp

subsection \<open>Statements whose events all satisfy a predicate\<close>

lemma only_return: "emits (io_return a) (only K)"
  by (rule emits_return) (simp add: only_def)

lemma only_raise: "emits (io_raise e) (only K)"
  by (rule emits_raise) (simp add: only_def)

lemma only_lift: "emits (io_lift r) (only K)"
  by (rule emits_lift) (simp add: only_def)

lemma only_bind:
  "emits m (only K) \<Longrightarrow> (\<And>a. emits (f a) (only K)) \<Longrightarrow> emits (io_bind m f) (only K)"
  by (rule emits_weaken [OF emits_bind [of m "only K" f "\<lambda>a. only K"]])
     (auto simp: only_def)

lemma only_then:
  "emits m (only K) \<Longrightarrow> emits n (only K) \<Longrightarrow> emits (io_then m n) (only K)"
  unfolding io_then_def by (rule only_bind)

lemma only_try_finally:
  "emits b (only K) \<Longrightarrow> emits f (only K) \<Longrightarrow> emits (try_finally b f) (only K)"
  by (rule emits_weaken [OF emits_try_finally [of b "only K" f "only K"]])
     (auto simp: only_def)

lemma only_run: "(\<And>s out. K (Run cmd s out)) \<Longrightarrow> emits (run h cmd) (only K)"
  by (rule emits_weaken [OF emits_run]) (auto simp: only_def)

lemma only_putenv: "K (Putenv k v) \<Longrightarrow> emits (os_putenv k v) (only K)"
  by (rule emits_weaken [OF emits_putenv]) (auto simp: only_def)

lemma only_getcwd: "emits os_getcwd (only K)"
  by (rule emits_weaken [OF emits_getcwd]) (auto simp: only_def)

lemma only_chdir: "K (Chdir p) \<Longrightarrow> emits (os_chdir p) (only K)"
  by (rule emits_weaken [OF emits_chdir]) (auto simp: only_def)

lemma only_mkdtemp: "(\<And>p. K (Mkdtemp p)) \<Longrightarrow> emits (mkdtemp h) (only K)"
  by (rule emits_weaken [OF emits_mkdtemp]) (auto simp: only_def)

lemma only_rmtree: "K (Rmtree p) \<Longrightarrow> emits (rmtree h p) (only K)"
  by (rule emits_weaken [OF emits_rmtree]) (auto simp: only_def)

lemma only_rmtree_at: "(\<And>p. K (Rmtree p)) \<Longrightarrow> emits (\<lambda>w. rmtree h (g w) w) (only K)"
  by (rule emits_at_world) (rule only_rmtree)

lemma only_makedirs: "(\<And>d. K (Makedirs d)) \<Longrightarrow> emits (os_makedirs p) (only K)"
  by (rule emits_weaken [OF emits_makedirs]) (auto simp: only_def)

lemma only_listdir: "emits (os_listdir p) (only K)"
  by (rule emits_weaken [OF emits_listdir]) (auto simp: only_def)

lemma only_move: "K (Move src dst) \<Longrightarrow> emits (shutil_move src dst) (only K)"
  by (rule emits_weaken [OF emits_move]) (auto simp: only_def)

lemma only_move_at:
  "(\<And>dst. K (Move src dst)) \<Longrightarrow> emits (\<lambda>w. shutil_move src (g w) w) (only K)"
  by (rule emits_at_world) (rule only_move)

lemma only_write: "K (Write p c) \<Longrightarrow> emits (write_file p c) (only K)"
  by (rule emits_weaken [OF emits_write]) (auto simp: only_def)

lemmas only_intros =
  emits_case_prod3 only_bind only_then only_try_finally only_return only_raise only_lift
  only_run only_putenv only_getcwd only_chdir only_mkdtemp only_rmtree only_rmtree_at
  only_makedirs only_listdir only_move only_move_at only_write

lemma only_run_envs:
  "(\<And>c s out. K (Run c s out)) \<Longrightarrow> emits (run_envs h envs) (only K)"
  by (induction envs) (auto intro!: only_intros)

lemma only_build_dists:
  "(\<And>c s out. K (Run c s out)) \<Longrightarrow> emits (build_dists h ts) (only K)"
  by (induction ts) (auto intro!: only_intros)

lemma only_test_body:
  "(\<And>c s out. K (Run c s out)) \<Longrightarrow> (\<And>p. K (Chdir p)) \<Longrightarrow> emits (test_body h t) (only K)"
  unfolding test_body_def by (intro only_intros only_run_envs) auto

lemma only_export_body:
  assumes "\<And>c s out. K (Run c s out)" "\<And>p. K (Chdir p)" "\<And>p. K (Rmtree p)"
    "\<And>p. K (Makedirs p)" "\<And>p q. K (Move p q)"
  shows "emits (export_body h v c t) (only K)"
  unfolding export_body_def by (intro only_intros only_build_dists) (auto simp: assms)

lemma only_cleanup:
  "(\<And>p. K (Chdir p)) \<Longrightarrow> (\<And>p. K (Rmtree p)) \<Longrightarrow> emits (cleanup h c t) (only K)"
  unfolding cleanup_def by (intro only_intros) auto

lemma only_determine_version:
  "(\<And>c s out. K (Run c s out)) \<Longrightarrow> emits (determine_version h) (only K)"
  unfolding determine_version_def by (intro only_intros) auto

lemma only_determine_build_tag:
  "(\<And>c s out. K (Run c s out)) \<Longrightarrow> emits (determine_build_tag h) (only K)"
  unfolding determine_build_tag_def by (intro only_intros) auto

lemma only_commit_release:
  "(\<And>c s out. K (Run c s out)) \<Longrightarrow> (\<And>p c. K (Write p c)) \<Longrightarrow>
   emits (commit_release h v b) (only K)"
  unfolding commit_release_def write_about_def by (intro only_intros) auto

lemma only_commit_development:
  "(\<And>c s out. K (Run c s out)) \<Longrightarrow> (\<And>p c. K (Write p c)) \<Longrightarrow>
   emits (commit_development h s n) (only K)"
  unfolding commit_development_def write_about_def by (intro only_intros) auto

subsection \<open>Statements that stop at the first failing command\<close>

lemma quiet_stops:
  "emits m (only (\<lambda>ev. \<not> failed ev)) \<Longrightarrow> emits m stops_at_failure"
  by (erule emits_weaken) (simp add: only_def stops_at_failure_def)

lemma stops_run: "emits (run h cmd) stops_at_failure"
proof (rule emits_weaken [OF emits_run])
  fix r :: "error + string" and evs
  assume "\<exists>status out. evs = [Run cmd status out] \<and>
            r = (if status = 0 then Inr out else Inl (Failure cmd status))"
  then obtain status out where e: "evs = [Run cmd status out]"
    and r: "r = (if status = 0 then Inr out else Inl (Failure cmd status))" by blast
  show "stops_at_failure r evs"
  proof (cases "status = 0")
    case True
    with e show ?thesis by (simp add: stops_at_failure_def)
  next
    case False
    with e r have "isl r" and "evs = [] @ [Run cmd status out]" and "failed (Run cmd status out)"
      and "list_all (\<lambda>ev. \<not> failed ev) []"
      by simp_all
    then show ?thesis unfolding stops_at_failure_def by blast
  qed
qed

lemma stops_bind:
  assumes "emits m stops_at_failure" and "\<And>a. emits (f a) stops_at_failure"
  shows "emits (io_bind m f) stops_at_failure"
proof (rule emits_weaken [OF emits_bind [of m stops_at_failure f "\<lambda>a. stops_at_failure"]])
  fix r :: "error + 'b" and evs
  assume "(\<exists>e. r = Inl e \<and> stops_at_failure (Inl e :: error + 'a) evs) \<or>
          (\<exists>a e1 e2. evs = e1 @ e2 \<and> stops_at_failure (Inr a :: error + 'a) e1
             \<and> stops_at_failure r e2)"
  then show "stops_at_failure r evs"
  proof (elim disjE exE conjE)
    fix e assume "r = Inl e" "stops_at_failure (Inl e :: error + 'a) evs"
    then show ?thesis by (auto simp: stops_at_failure_def)
  next
    fix a e1 e2
    assume evs: "evs = e1 @ e2" and s1: "stops_at_failure (Inr a :: error + 'a) e1"
      and s2: "stops_at_failure r e2"
    from s1 have q1: "list_all (\<lambda>ev. \<not> failed ev) e1" by (simp add: stops_at_failure_def)
    from s2 show ?thesis unfolding stops_at_failure_def
    proof (elim disjE conjE exE)
      assume "list_all (\<lambda>ev. \<not> failed ev) e2"
      with q1 evs show "list_all (\<lambda>ev. \<not> failed ev) evs \<or>
        (isl r \<and> (\<exists>pre ev. evs = pre @ [ev] \<and> list_all (\<lambda>ev. \<not> failed ev) pre \<and> failed ev))"
        by simp
    next
      fix pre ev
      assume "isl r" "e2 = pre @ [ev]" "list_all (\<lambda>ev. \<not> failed ev) pre" "failed ev"
      with q1 evs have "isl r" "evs = (e1 @ pre) @ [ev]"
        "list_all (\<lambda>ev. \<not> failed ev) (e1 @ pre)" "failed ev" by simp_all
      then show "list_all (\<lambda>ev. \<not> failed ev) evs \<or>
        (isl r \<and> (\<exists>pre ev. evs = pre @ [ev] \<and> list_all (\<lambda>ev. \<not> failed ev) pre \<and> failed ev))"
        by blast
    qed
  qed
qed (use assms in auto)

lemma stops_then:
  "emits m stops_at_failure \<Longrightarrow> emits n stops_at_failure \<Longrightarrow> emits (io_then m n) stops_at_failure"
  unfolding io_then_def by (rule stops_bind)

lemmas quiet_intros =
  only_return only_raise only_lift only_putenv only_getcwd only_chdir only_mkdtemp
  only_rmtree only_rmtree_at only_makedirs only_listdir only_move only_move_at only_write

lemmas stops_intros = emits_case_prod3 stops_bind stops_then stops_run

section \<open>Reasoning about the world\<close>

lemma io_bind_Inl: "m w = (Inl e, w1) \<Longrightarrow> io_bind m f w = (Inl e, w1)"
  by (simp add: io_bind_def)

lemma io_bind_Inr: "m w = (Inr a, w1) \<Longrightarrow> io_bind m f w = f a w1"
  by (simp add: io_bind_def)

lemma relatesI: "(\<And>w. R w (fst (m w)) (snd (m w))) \<Longrightarrow> relates m R"
  by (simp add: relates_def)

lemma relatesD: "relates m R \<Longrightarrow> R w (fst (m w)) (snd (m w))"
  by (simp add: relates_def)

lemma relates_weaken:
  "relates m R \<Longrightarrow> (\<And>w r w'. R w r w' \<Longrightarrow> S w r w') \<Longrightarrow> relates m S"
  by (simp add: relates_def)

lemma relates_conj:
  "relates m R \<Longrightarrow> relates m S \<Longrightarrow> relates m (\<lambda>w r w'. R w r w' \<and> S w r w')"
  by (simp add: relates_def)

lemma relates_bind:
  assumes m: "relates m R" and f: "\<And>a. relates (f a) (S a)"
  shows "relates (io_bind m f)
           (\<lambda>w r w'. (\<exists>e. r = Inl e \<and> R w (Inl e) w') \<or>
                      (\<exists>a w1. R w (Inr a) w1 \<and> S a w1 r w'))"
proof (rule relatesI)
  fix w
  obtain r1 w1 where mw: "m w = (r1, w1)" by (cases "m w")
  with relatesD [OF m, of w] have r1: "R w r1 w1" by simp
  show "(\<exists>e. fst (io_bind m f w) = Inl e \<and> R w (Inl e) (snd (io_bind m f w))) \<or>
        (\<exists>a w1. R w (Inr a) w1 \<and> S a w1 (fst (io_bind m f w)) (snd (io_bind m f w)))"
  proof (cases r1)
    case (Inl e)
    with mw r1 show ?thesis by (simp add: io_bind_Inl)
  next
    case (Inr a)
    with mw have "io_bind m f w = f a w1" by (simp add: io_bind_Inr)
    with relatesD [OF f, of a w1] r1 Inr show ?thesis by auto
  qed
qed

lemma relates_then:
  assumes m: "relates m R" and n: "relates n S"
  shows "relates (io_then m n)
           (\<lambda>w r w'. (\<exists>e. r = Inl e \<and> R w (Inl e) w') \<or>
                      (\<exists>a w1. R w (Inr a) w1 \<and> S w1 r w'))"
  unfolding io_then_def using relates_bind [OF m, of "\<lambda>_. n" "\<lambda>_. S"] n by simp

lemma relates_case_prod3:
  "(\<And>a b c. relates (f a b c) (R a b c)) \<Longrightarrow>
   relates (case x of (a, b, c) \<Rightarrow> f a b c) (case x of (a, b, c) \<Rightarrow> R a b c)"
  by (cases x) simp

lemma emits_relates:
  "emits m P \<Longrightarrow> relates m (\<lambda>w r w'. \<exists>evs. trace w' = trace w @ evs \<and> P r evs)"
  by (simp add: emits_def relates_def)

lemma keeps_relates: "keeps f m \<Longrightarrow> relates m (\<lambda>w r w'. f w' = f w)"
  by (simp add: keeps_def relates_def)

lemma relates_emitted:
  assumes "relates m (\<lambda>w r w'. \<exists>evs. trace w' = trace w @ evs \<and> Q w r w' evs)"
  shows "Q w (fst (m w)) (snd (m w)) (emitted w (snd (m w)))"
proof -
  from relatesD [OF assms, of w] obtain evs
    where e: "trace (snd (m w)) = trace w @ evs" and q: "Q w (fst (m w)) (snd (m w)) evs"
    by blast
  from e have "emitted w (snd (m w)) = evs" by (simp add: emitted_def)
  with q show ?thesis by simp
qed

subsection \<open>Statements that leave a component of the world alone\<close>

lemma keeps_return: "keeps f (io_return a)"
  by (simp add: keeps_def io_return_def)

lemma keeps_raise: "keeps f (io_raise e)"
  by (simp add: keeps_def io_raise_def)

lemma keeps_lift: "keeps f (io_lift r)"
  by (simp add: keeps_def io_lift_def)

lemma keeps_bind:
  assumes m: "keeps f m" and g: "\<And>a. keeps f (g a)"
  shows "keeps f (io_bind m g)"
  unfolding keeps_def
proof
  fix w
  obtain r1 w1 where mw: "m w = (r1, w1)" by (cases "m w")
  with m have f1: "f w1 = f w" by (auto simp: keeps_def dest: spec [of _ w])
  show "f (snd (io_bind m g w)) = f w"
  proof (cases r1)
    case (Inl e)
    with mw f1 show ?thesis by (simp add: io_bind_Inl)
  next
    case (Inr a)
    with mw have "io_bind m g w = g a w1" by (simp add: io_bind_Inr)
    moreover from g [of a] have "f (snd (g a w1)) = f w1" by (simp add: keeps_def)
    ultimately show ?thesis using f1 by simp
  qed
qed

lemma keeps_then: "keeps f m \<Longrightarrow> keeps f n \<Longrightarrow> keeps f (io_then m n)"
  unfolding io_then_def by (rule keeps_bind)

lemma keeps_try_finally:
  assumes b: "keeps f b" and c: "keeps f c"
  shows "keeps f (try_finally b c)"
  unfolding keeps_def
proof
  fix w
  obtain rb w1 where bw: "b w = (rb, w1)" by (cases "b w")
  obtain rc w2 where cw: "c w1 = (rc, w2)" by (cases "c w1")
  from b bw have "f w1 = f w" by (auto simp: keeps_def dest: spec [of _ w])
  moreover from c cw have "f w2 = f w1" by (auto simp: keeps_def dest: spec [of _ w1])
  moreover have "snd (try_finally b c w) = w2"
    using bw cw by (simp add: try_finally_def split: sum.splits)
  ultimately show "f (snd (try_finally b c w)) = f w" by simp
qed

lemma keeps_at_world: "(\<And>x. keeps f (m x)) \<Longrightarrow> keeps f (\<lambda>w. m (g w) w)"
  by (simp add: keeps_def)

lemma keeps_case_prod3:
  "(\<And>a b c. keeps f (m a b c)) \<Longrightarrow> keeps f (case x of (a, b, c) \<Rightarrow> m a b c)"
  by (cases x) simp

lemma keeps_cwd_prims:
  "keeps cwd (run h cmd)" "keeps cwd (os_putenv k v)" "keeps cwd os_getcwd"
  "keeps cwd (mkdtemp h)" "keeps cwd (rmtree h p)" "keeps cwd (os_makedirs p)"
  "keeps cwd (os_listdir p)" "keeps cwd (shutil_move src dst)" "keeps cwd (write_file p c)"
  by (simp_all add: keeps_def run_def os_putenv_def os_getcwd_def mkdtemp_def rmtree_def
      os_makedirs_def os_listdir_def shutil_move_def write_file_def Let_def
      split: prod.splits)

lemma keeps_environ_prims:
  "keeps environ (run h cmd)" "keeps environ os_getcwd" "keeps environ (os_chdir p)"
  "keeps environ (mkdtemp h)" "keeps environ (rmtree h p)" "keeps environ (os_makedirs p)"
  "keeps environ (os_listdir p)" "keeps environ (shutil_move src dst)"
  "keeps environ (write_file p c)"
  by (simp_all add: keeps_def run_def os_getcwd_def os_chdir_def mkdtemp_def rmtree_def
      os_makedirs_def os_listdir_def shutil_move_def write_file_def Let_def
      split: prod.splits)

lemmas keeps_intros =
  keeps_case_prod3 keeps_bind keeps_then keeps_try_finally keeps_return keeps_raise keeps_lift

lemma keeps_environ_run_envs: "keeps environ (run_envs h envs)"
  by (induction envs) (auto intro!: keeps_intros keeps_environ_prims)

lemma keeps_environ_build_dists: "keeps environ (build_dists h ts)"
  by (induction ts) (auto intro!: keeps_intros keeps_environ_prims)

lemma keeps_environ_cleanup: "keeps environ (cleanup h c t)"
  unfolding cleanup_def by (intro keeps_intros keeps_environ_prims)

lemma keeps_environ_test_body: "keeps environ (test_body h t)"
  unfolding test_body_def
  by (intro keeps_intros keeps_environ_prims keeps_environ_run_envs)

lemma keeps_environ_export_body: "keeps environ (export_body h v c t)"
  unfolding export_body_def
  by (intro keeps_intros keeps_environ_prims keeps_environ_build_dists
      keeps_at_world [of environ "rmtree h"] keeps_at_world [of environ "shutil_move s" for s])

lemma keeps_environ_export_dists: "keeps environ (export_dists h v)"
  unfolding export_dists_def
  by (intro keeps_intros keeps_environ_prims keeps_environ_export_body keeps_environ_cleanup)

lemma keeps_environ_build: "keeps environ (release_build h v)"
  unfolding release_build_def determine_version_def determine_build_tag_def
    commit_release_def commit_development_def write_about_def
  by (intro keeps_intros keeps_environ_prims keeps_environ_export_dists)

lemma keeps_environ_upload: "keeps environ (release_upload h r v)"
  unfolding release_upload_def by (intro keeps_intros keeps_environ_prims)

lemma keeps_cwd_determine_version: "keeps cwd (determine_version h)"
  unfolding determine_version_def by (intro keeps_intros keeps_cwd_prims)

lemma keeps_cwd_determine_build_tag: "keeps cwd (determine_build_tag h)"
  unfolding determine_build_tag_def by (intro keeps_intros keeps_cwd_prims)

lemma keeps_cwd_commit_release: "keeps cwd (commit_release h v b)"
  unfolding commit_release_def write_about_def by (intro keeps_intros keeps_cwd_prims)

lemma keeps_cwd_commit_development: "keeps cwd (commit_development h s n)"
  unfolding commit_development_def write_about_def by (intro keeps_intros keeps_cwd_prims)

section \<open>The release version\<close>




section \<open>The release counter\<close>

text \<open>
  C2. With the tags \<^verbatim>\<open>v13.5.9\<close> and \<^verbatim>\<open>v13.5.10\<close> in the series, the tags sort as
  strings, \<^verbatim>\<open>v13.5.9\<close> comes last, and the new counter is 10: the counter of a tag
  that exists already.
\<close>

theorem version_num_not_fresh:
  "version_num (''v13.5.9'' @ [CHR 0x0A] @ ''v13.5.10'' @ [CHR 0x0A]) = Inr 10
   \<and> ''v13.5.10'' \<in> set (py_split (''v13.5.9'' @ [CHR 0x0A] @ ''v13.5.10'' @ [CHR 0x0A]))
   \<and> py_int (last (py_split_on CHR ''.'' ''v13.5.10'')) = Inr 10"
  by (simp add: string_eval)

section \<open>The environment variables\<close>

lemma keeps_after_then:
  assumes "keeps f n"
  shows "f (snd (io_then m n w)) = f (snd (m w))"
proof -
  obtain r1 w1 where mw: "m w = (r1, w1)" by (cases "m w")
  show ?thesis
  proof (cases r1)
    case (Inl e)
    with mw show ?thesis by (simp add: io_then_def io_bind_Inl)
  next
    case (Inr a)
    with mw have "io_then m n w = n w1" by (simp add: io_then_def io_bind_Inr)
    with assms mw show ?thesis by (simp add: keeps_def)
  qed
qed

lemma keeps_environ_scoped_test:
  "keeps environ (io_bind os_getcwd (\<lambda>curdir. io_bind (mkdtemp h) (\<lambda>t.
     try_finally (test_body h (with_slash t)) (cleanup h curdir (with_slash t)))))"
  by (intro keeps_intros keeps_environ_prims keeps_environ_test_body keeps_environ_cleanup)

lemma environ_release_test:
  "environ (snd (release_test h db v w)) =
     (case db of
        None \<Rightarrow> environ w
      | Some d \<Rightarrow> if d = [] then environ w
                  else (environ w)(''WAREHOUSE_DATABASE_URL'' \<mapsto> d))"
  unfolding release_test_def
  by (simp add: keeps_after_then [OF keeps_environ_scoped_test] io_return_def os_putenv_def
      split: option.splits)

lemma execute_release_all:
  "execute ns h a ''release.all'' =
     io_then (release_test h (database a) (verbose a))
    (io_then (release_build h (verbose a))
    (io_then (release_upload h (repository a) (verbose a))
    (io_then (release_all h (repository a) (database a) (verbose a))
             (io_return ()))))"
  by (simp add: execute_def ns_def)

lemma environ_release_all:
  "environ (snd (execute ns h a ''release.all'' w)) =
     environ (snd (release_test h (database a) (verbose a) w))"
  unfolding execute_release_all
  by (rule keeps_after_then)
     (intro keeps_intros keeps_environ_build keeps_environ_upload,
      simp add: release_all_def keeps_return)

text \<open>
  C4, as the code has it. The build task and the upload task leave the environment
  variables as they were. The test task, and with it the \<^verbatim>\<open>all\<close> command, sets
  \<^verbatim>\<open>WAREHOUSE_DATABASE_URL\<close> to the database argument when that argument is given and
  not empty, and leaves every other variable as it was.
\<close>

theorem environment_after_task:
  "environ (snd (release_test h db v w)) =
     (case db of
        None \<Rightarrow> environ w
      | Some d \<Rightarrow> if d = [] then environ w
                  else (environ w)(''WAREHOUSE_DATABASE_URL'' \<mapsto> d))
   \<and> environ (snd (release_build h v w)) = environ w
   \<and> environ (snd (release_upload h repo v w)) = environ w
   \<and> environ (snd (execute ns h a ''release.all'' w)) =
     (case database a of
        None \<Rightarrow> environ w
      | Some d \<Rightarrow> if d = [] then environ w
                  else (environ w)(''WAREHOUSE_DATABASE_URL'' \<mapsto> d))"
  using keeps_environ_build [of h v] keeps_environ_upload [of h repo v]
  by (simp add: environ_release_test environ_release_all keeps_def)

theorem environment_after_task_example:
  "environ (snd (release_test example_host (Some ''postgres://db'') False example_world))
     ''WAREHOUSE_DATABASE_URL'' = Some ''postgres://db''
   \<and> environ (snd (release_build example_host False example_world)) = environ example_world
   \<and> environ (snd (release_upload example_host None False example_world))
     = environ example_world"
  using environment_after_task [of example_host "Some ''postgres://db''" False example_world
      None "\<lparr>repository = None, database = None, verbose = False\<rparr>"]
  by simp

text \<open>
  C4, as stated, fails: the test task run with a database argument leaves
  \<^verbatim>\<open>WAREHOUSE_DATABASE_URL\<close> set, where it was unset before.
\<close>

theorem environment_changed_by_test:
  "environ (snd (release_test example_host (Some ''postgres://db'') False example_world))
     ''WAREHOUSE_DATABASE_URL'' = Some ''postgres://db''
   \<and> environ example_world ''WAREHOUSE_DATABASE_URL'' = None"
  by (simp add: environ_release_test example_world_def)

section \<open>The \<^verbatim>\<open>all\<close> command\<close>

text \<open>
  C5. Executing \<^verbatim>\<open>release.all\<close> is executing the test task, then the build task, then
  the upload task, each started only when the one before it has returned, followed by
  the body of \<^verbatim>\<open>release_all\<close>, which does nothing.
\<close>

theorem all_is_test_build_upload:
  "execute ns h a ''release.all'' =
     io_then (release_test h (database a) (verbose a))
    (io_then (release_build h (verbose a))
    (io_then (release_upload h (repository a) (verbose a))
             (io_return ())))
   \<and> release_all h repo db verb w = (Inr (), w)"
  by (simp add: execute_def ns_def release_all_def io_then_def io_bind_def io_return_def fun_eq_iff
      split: prod.splits sum.splits)

section \<open>The temporary directory and the working directory\<close>

text \<open>
  \<^verbatim>\<open>rmtree\<close> returns normally whether or not the directory could be deleted: a
  directory that cannot be deleted is still there afterwards.
\<close>

lemma rmtree_ignores_errors:
  assumes "is_dir w p" and "undeletable h w (norm_path p)"
  shows "fst (rmtree h p w) = Inr ()" and "is_dir (snd (rmtree h p w)) p"
proof -
  from assms(1) have d: "norm_path p \<in> set (dirs w)" by (simp add: is_dir_def)
  with assms(2) have "stuck h w (norm_path p)"
    by (auto simp: stuck_def list_ex_iff)
  with d assms(1) show "is_dir (snd (rmtree h p w)) p"
    by (simp add: rmtree_def is_dir_def Let_def)
  show "fst (rmtree h p w) = Inr ()" by (simp add: rmtree_def Let_def)
qed

lemma rmtree_deletes:
  assumes "\<And>q. \<not> undeletable h w q"
  shows "\<not> is_dir (snd (rmtree h p w)) p"
  using assms by (simp add: rmtree_def is_dir_def stuck_def list_ex_iff Let_def)

lemma cleanup_cases:
  "(fst (cleanup h c t w1) = Inl (OSError ''chdir'' c) \<and> snd (cleanup h c t w1) = w1) \<or>
   (fst (cleanup h c t w1) = Inr () \<and> cwd (snd (cleanup h c t w1)) = c
    \<and> trace (snd (cleanup h c t w1)) = trace w1 @ [Chdir c, Rmtree t])"
  by (simp add: cleanup_def io_then_def io_bind_def os_chdir_def rmtree_def is_dir_def Let_def)

lemma try_finally_cleanup:
  assumes "body w = (rb, w1)"
  shows "(try_finally body (cleanup h c t) w = (Inl (OSError ''chdir'' c), w1)) \<or>
         (\<exists>w2. try_finally body (cleanup h c t) w = (rb, w2) \<and> cwd w2 = c
               \<and> trace w2 = trace w1 @ [Chdir c, Rmtree t])"
proof -
  obtain rc w2 where cw: "cleanup h c t w1 = (rc, w2)" by (cases "cleanup h c t w1")
  from cleanup_cases [of h c t w1] cw
  have "(rc = Inl (OSError ''chdir'' c) \<and> w2 = w1) \<or>
        (rc = Inr () \<and> cwd w2 = c \<and> trace w2 = trace w1 @ [Chdir c, Rmtree t])"
    by simp
  then show ?thesis
    using assms cw by (auto simp: try_finally_def)
qed

lemma scoped_statement:
  assumes B: "\<And>c t. emits (B c t) (only (\<lambda>ev. \<not> is_mkdtemp ev))"
  shows "relates (io_bind os_getcwd (\<lambda>curdir. io_bind (mkdtemp h) (\<lambda>t.
            try_finally (B curdir (with_slash t)) (cleanup h curdir (with_slash t)))))
          scoped_tmpdir"
proof (rule relatesI)
  fix w
  let ?m = "io_bind os_getcwd (\<lambda>curdir. io_bind (mkdtemp h) (\<lambda>t.
            try_finally (B curdir (with_slash t)) (cleanup h curdir (with_slash t))))"
  show "scoped_tmpdir w (fst (?m w)) (snd (?m w))"
  proof (cases "is_dir w (cwd w)")
    case False
    then have "?m w = (Inl (OSError ''getcwd'' (cwd w)), w)"
      by (simp add: io_bind_def os_getcwd_def)
    then show ?thesis by (simp add: scoped_tmpdir_def)
  next
    case True
    then have g: "os_getcwd w = (Inr (cwd w), w)" by (simp add: os_getcwd_def)
    let ?c = "cwd w"
    let ?k = "\<lambda>t. try_finally (B ?c (with_slash t)) (cleanup h ?c (with_slash t))"
    have m1: "?m w = io_bind (mkdtemp h) ?k w" using g by (simp add: io_bind_Inr)
    obtain r2 w2 where mk: "mkdtemp h w = (r2, w2)" by (cases "mkdtemp h w")
    show ?thesis
    proof (cases r2)
      case (Inl e)
      with mk m1 have "?m w = (Inl e, w2)" by (simp add: io_bind_Inl)
      moreover from mk Inl have "w2 = w" by (auto simp: mkdtemp_def Let_def split: if_splits)
      ultimately show ?thesis by (simp add: scoped_tmpdir_def)
    next
      case (Inr t)
      with mk have t2: "trace w2 = trace w @ [Mkdtemp t]" and c2: "cwd w2 = cwd w"
        by (auto simp: mkdtemp_def Let_def split: if_splits)
      from mk Inr m1 have m2: "?m w = ?k t w2" by (simp add: io_bind_Inr)
      obtain rb w3 where bw: "B ?c (with_slash t) w2 = (rb, w3)"
        by (cases "B ?c (with_slash t) w2")
      from emitsD [OF B, of ?c "with_slash t" w2] bw obtain eb
        where t3: "trace w3 = trace w2 @ eb" and nb: "list_all (\<lambda>ev. \<not> is_mkdtemp ev) eb"
        by (auto simp: only_def)
      from try_finally_cleanup [of "B ?c (with_slash t)" w2 rb w3 h ?c "with_slash t", OF bw]
      show ?thesis
      proof (elim disjE exE conjE)
        assume "?k t w2 = (Inl (OSError ''chdir'' ?c), w3)"
        with m2 t2 t3 show ?thesis
          by (simp add: scoped_tmpdir_def chdir_back_failed_def)
      next
        fix w4
        assume k: "?k t w2 = (rb, w4)" and c4: "cwd w4 = ?c"
          and t4: "trace w4 = trace w3 @ [Chdir ?c, Rmtree (with_slash t)]"
        let ?evs = "Mkdtemp t # eb @ [Chdir ?c, Rmtree (with_slash t)]"
        have tr: "trace w4 = trace w @ ?evs" using t2 t3 t4 by simp
        have only_t: "p = t" if "Mkdtemp p \<in> set ?evs" for p
          using that nb by (auto simp: list_all_iff)
        have "\<forall>p. Mkdtemp p \<in> set ?evs \<longrightarrow>
                (\<exists>pre mid. ?evs = pre @ Mkdtemp p # mid @ [Chdir ?c, Rmtree (with_slash p)])"
        proof (intro allI impI)
          fix p assume "Mkdtemp p \<in> set ?evs"
          then have "p = t" by (rule only_t)
          moreover have "?evs = [] @ Mkdtemp t # eb @ [Chdir ?c, Rmtree (with_slash t)]"
            by simp
          ultimately show
            "\<exists>pre mid. ?evs = pre @ Mkdtemp p # mid @ [Chdir ?c, Rmtree (with_slash p)]"
            by blast
        qed
        with tr c4 have "scoped_tmpdir w rb w4"
          unfolding scoped_tmpdir_def by blast
        with m2 k show ?thesis by simp
      qed
    qed
  qed
qed

lemma quietlyI:
  assumes "keeps cwd m" and "emits m (only (\<lambda>ev. \<not> is_mkdtemp ev))"
  shows "relates m quietly"
proof (rule relatesI)
  fix w
  from assms(1) have "cwd (snd (m w)) = cwd w" by (simp add: keeps_def)
  moreover from emitsD [OF assms(2), of w]
  have "\<exists>evs. trace (snd (m w)) = trace w @ evs \<and> list_all (\<lambda>ev. \<not> is_mkdtemp ev) evs"
    by (simp add: only_def)
  ultimately show "quietly w (fst (m w)) (snd (m w))" by (simp add: quietly_def)
qed

lemma quietly_scoped:
  assumes q: "quietly w (r1 :: error + 'a) w1"
    and "\<not> isl r1 \<Longrightarrow> scoped_tmpdir w1 (r :: error + 'b) w'"
    and "isl r1 \<Longrightarrow> w' = w1 \<and> r = Inl (projl r1)"
  shows "scoped_tmpdir w r w'"
proof (cases "isl r1")
  case True
  from q obtain e1 where c1: "cwd w1 = cwd w" and t1: "trace w1 = trace w @ e1"
    and n1: "list_all (\<lambda>ev. \<not> is_mkdtemp ev) e1" by (auto simp: quietly_def)
  have "Mkdtemp p \<notin> set e1" for p using n1 by (auto simp: list_all_iff)
  with assms(3) [OF True] c1 t1 show ?thesis
    unfolding scoped_tmpdir_def by blast
next
  case False
  from q obtain e1 where c1: "cwd w1 = cwd w" and t1: "trace w1 = trace w @ e1"
    and n1: "list_all (\<lambda>ev. \<not> is_mkdtemp ev) e1" by (auto simp: quietly_def)
  from assms(2) [OF False] obtain e2 where t2: "trace w' = trace w1 @ e2"
    and s: "chdir_back_failed w1 r \<or>
         (cwd w' = cwd w1 \<and>
          (\<forall>p. Mkdtemp p \<in> set e2 \<longrightarrow>
             (\<exists>pre mid. e2 = pre @ Mkdtemp p # mid @ [Chdir (cwd w1), Rmtree (with_slash p)])))"
    by (auto simp: scoped_tmpdir_def)
  have tr: "trace w' = trace w @ (e1 @ e2)" using t1 t2 by simp
  from s show ?thesis
  proof
    assume "chdir_back_failed w1 r"
    with c1 tr show ?thesis unfolding scoped_tmpdir_def chdir_back_failed_def by metis
  next
    assume a: "cwd w' = cwd w1 \<and>
          (\<forall>p. Mkdtemp p \<in> set e2 \<longrightarrow>
             (\<exists>pre mid. e2 = pre @ Mkdtemp p # mid @ [Chdir (cwd w1), Rmtree (with_slash p)]))"
    have "\<forall>p. Mkdtemp p \<in> set (e1 @ e2) \<longrightarrow>
             (\<exists>pre mid. e1 @ e2 = pre @ Mkdtemp p # mid @ [Chdir (cwd w), Rmtree (with_slash p)])"
    proof (intro allI impI)
      fix p assume "Mkdtemp p \<in> set (e1 @ e2)"
      with n1 have "Mkdtemp p \<in> set e2" by (auto simp: list_all_iff)
      with a c1 obtain pre mid where e: "e2 = pre @ Mkdtemp p # mid @ [Chdir (cwd w), Rmtree (with_slash p)]" by auto
      from e have "e1 @ e2 = (e1 @ pre) @ Mkdtemp p # mid @ [Chdir (cwd w), Rmtree (with_slash p)]"
        by simp
      then show
        "\<exists>pre mid. e1 @ e2 = pre @ Mkdtemp p # mid @ [Chdir (cwd w), Rmtree (with_slash p)]"
        by blast
    qed
    with a c1 tr show ?thesis unfolding scoped_tmpdir_def by metis
  qed
qed

lemma scoped_removed: "scoped_tmpdir w r w' \<Longrightarrow> rmtree_called w r w'"
  unfolding scoped_tmpdir_def rmtree_called_def
  by (elim exE conjE disjE, blast, fastforce)

lemma relates_bind_compose:
  assumes m: "relates m R" and f: "\<And>a. relates (f a) S"
    and c: "\<And>w r1 w1 r w'. R w r1 w1 \<Longrightarrow> (\<not> isl r1 \<Longrightarrow> S w1 r w') \<Longrightarrow>
              (isl r1 \<Longrightarrow> w' = w1 \<and> r = Inl (projl r1)) \<Longrightarrow> T w r w'"
  shows "relates (io_bind m f) T"
proof (rule relates_weaken [OF relates_bind [OF m, of f "\<lambda>a. S"]])
  fix w :: world and r :: "error + 'b" and w' :: world
  assume "(\<exists>e. r = Inl e \<and> R w (Inl e) w') \<or> (\<exists>a w1. R w (Inr a) w1 \<and> S w1 r w')"
  then show "T w r w'"
  proof (elim disjE exE conjE)
    fix e assume "r = Inl e" "R w (Inl e) w'"
    then show ?thesis using c [of w "Inl e" w' r w'] by simp
  next
    fix a w1 assume "R w (Inr a) w1" "S w1 r w'"
    then show ?thesis using c [of w "Inr a" w1 r w'] by simp
  qed
qed (rule f)

lemma relates_then_compose:
  assumes m: "relates m R" and n: "relates n S"
    and c: "\<And>w r1 w1 r w'. R w r1 w1 \<Longrightarrow> (\<not> isl r1 \<Longrightarrow> S w1 r w') \<Longrightarrow>
              (isl r1 \<Longrightarrow> w' = w1 \<and> r = Inl (projl r1)) \<Longrightarrow> T w r w'"
  shows "relates (io_then m n) T"
  unfolding io_then_def by (rule relates_bind_compose [OF m n c])

lemma quietly_removed:
  assumes q: "quietly w (r1 :: error + 'a) w1"
    and "\<not> isl r1 \<Longrightarrow> rmtree_called w1 (r :: error + 'b) w'"
    and "isl r1 \<Longrightarrow> w' = w1 \<and> r = Inl (projl r1)"
  shows "rmtree_called w r w'"
proof -
  from q obtain e1 where c1: "cwd w1 = cwd w" and t1: "trace w1 = trace w @ e1"
    and n1: "list_all (\<lambda>ev. \<not> is_mkdtemp ev) e1" by (auto simp: quietly_def)
  have no1: "Mkdtemp p \<notin> set e1" for p using n1 by (auto simp: list_all_iff)
  show ?thesis
  proof (cases "isl r1")
    case True
    with assms(3) c1 t1 no1 show ?thesis unfolding rmtree_called_def by blast
  next
    case False
    from assms(2) [OF False] obtain e2 where t2: "trace w' = trace w1 @ e2"
      and s: "chdir_back_failed w1 r \<or>
           (cwd w' = cwd w1 \<and>
            (\<forall>p. Mkdtemp p \<in> set e2 \<longrightarrow>
               (\<exists>pre post. e2 = pre @ Mkdtemp p # post \<and> Rmtree (with_slash p) \<in> set post)))"
      by (auto simp: rmtree_called_def)
    have tr: "trace w' = trace w @ (e1 @ e2)" using t1 t2 by simp
    from s show ?thesis
    proof
      assume "chdir_back_failed w1 r"
      with c1 tr show ?thesis unfolding rmtree_called_def chdir_back_failed_def by metis
    next
      assume a: "cwd w' = cwd w1 \<and>
            (\<forall>p. Mkdtemp p \<in> set e2 \<longrightarrow>
               (\<exists>pre post. e2 = pre @ Mkdtemp p # post \<and> Rmtree (with_slash p) \<in> set post))"
      have "\<forall>p. Mkdtemp p \<in> set (e1 @ e2) \<longrightarrow>
               (\<exists>pre post. e1 @ e2 = pre @ Mkdtemp p # post \<and> Rmtree (with_slash p) \<in> set post)"
      proof (intro allI impI)
        fix p assume "Mkdtemp p \<in> set (e1 @ e2)"
        with no1 have "Mkdtemp p \<in> set e2" by auto
        with a obtain pre post where e: "e2 = pre @ Mkdtemp p # post"
          and r: "Rmtree (with_slash p) \<in> set post" by blast
        from e have "e1 @ e2 = (e1 @ pre) @ Mkdtemp p # post" by simp
        with r show "\<exists>pre post. e1 @ e2 = pre @ Mkdtemp p # post \<and> Rmtree (with_slash p) \<in> set post"
          by blast
      qed
      with a c1 tr show ?thesis unfolding rmtree_called_def by metis
    qed
  qed
qed

lemma removed_quietly:
  assumes s: "rmtree_called w (r1 :: error + 'a) w1"
    and "\<not> isl r1 \<Longrightarrow> quietly w1 (r :: error + 'b) w'"
    and "isl r1 \<Longrightarrow> w' = w1 \<and> r = Inl (projl r1)"
  shows "rmtree_called w r w'"
proof (cases "isl r1")
  case True
  then obtain e where r1: "r1 = Inl e" by (cases r1) auto
  with assms(3) True have "w' = w1" "r = Inl e" by simp_all
  with s r1 show ?thesis by (simp add: rmtree_called_def chdir_back_failed_def)
next
  case False
  then have nf: "\<not> chdir_back_failed w r1" by (auto simp: chdir_back_failed_def)
  from s nf obtain e1 where t1: "trace w1 = trace w @ e1" and c1: "cwd w1 = cwd w"
    and a: "\<forall>p. Mkdtemp p \<in> set e1 \<longrightarrow>
               (\<exists>pre post. e1 = pre @ Mkdtemp p # post \<and> Rmtree (with_slash p) \<in> set post)"
    by (auto simp: rmtree_called_def)
  from assms(2) [OF False] obtain e2 where c2: "cwd w' = cwd w1"
    and t2: "trace w' = trace w1 @ e2" and n2: "list_all (\<lambda>ev. \<not> is_mkdtemp ev) e2"
    by (auto simp: quietly_def)
  have no2: "Mkdtemp p \<notin> set e2" for p using n2 by (auto simp: list_all_iff)
  have tr: "trace w' = trace w @ (e1 @ e2)" using t1 t2 by simp
  have "\<forall>p. Mkdtemp p \<in> set (e1 @ e2) \<longrightarrow>
           (\<exists>pre post. e1 @ e2 = pre @ Mkdtemp p # post \<and> Rmtree (with_slash p) \<in> set post)"
  proof (intro allI impI)
    fix p assume "Mkdtemp p \<in> set (e1 @ e2)"
    with no2 have "Mkdtemp p \<in> set e1" by auto
    with a obtain pre post where e: "e1 = pre @ Mkdtemp p # post"
      and r: "Rmtree (with_slash p) \<in> set post" by blast
    from e have "e1 @ e2 = pre @ Mkdtemp p # (post @ e2)" by simp
    moreover from r have "Rmtree (with_slash p) \<in> set (post @ e2)" by simp
    ultimately show "\<exists>pre post. e1 @ e2 = pre @ Mkdtemp p # post \<and> Rmtree (with_slash p) \<in> set post"
      by blast
  qed
  with c1 c2 tr show ?thesis unfolding rmtree_called_def by metis
qed

lemma quietly_putenv_database:
  "relates (case db of
              None \<Rightarrow> io_return ()
            | Some d \<Rightarrow> if d = [] then io_return ()
                        else os_putenv ''WAREHOUSE_DATABASE_URL'' d) quietly"
  by (rule quietlyI)
     (auto split: option.splits intro!: keeps_return keeps_cwd_prims only_return only_putenv)

lemma scoped_release_test: "relates (release_test h db v) scoped_tmpdir"
  unfolding release_test_def
proof (rule relates_then_compose [where R = quietly and S = scoped_tmpdir])
  show "relates (case db of
              None \<Rightarrow> io_return ()
            | Some d \<Rightarrow> if d = [] then io_return ()
                        else os_putenv ''WAREHOUSE_DATABASE_URL'' d) quietly"
    by (rule quietly_putenv_database)
  show "relates (io_bind os_getcwd (\<lambda>curdir. io_bind (mkdtemp h) (\<lambda>t.
          try_finally (test_body h (with_slash t)) (cleanup h curdir (with_slash t)))))
        scoped_tmpdir"
    by (rule scoped_statement) (rule only_test_body, simp_all)
  show "scoped_tmpdir w r w'"
    if "quietly w (r1 :: error + unit) w1" "\<not> isl r1 \<Longrightarrow> scoped_tmpdir w1 r w'"
      "isl r1 \<Longrightarrow> w' = w1 \<and> r = Inl (projl r1)"
    for w r1 w1 and r :: "error + unit" and w'
    using that by (rule quietly_scoped)
qed

lemma scoped_export_dists: "relates (export_dists h version) scoped_tmpdir"
  unfolding export_dists_def
  by (rule scoped_statement) (rule only_export_body, simp_all)

lemma quietly_determine_version: "relates (determine_version h) quietly"
  by (rule quietlyI [OF keeps_cwd_determine_version only_determine_version]) simp

lemma quietly_determine_build_tag: "relates (determine_build_tag h) quietly"
  by (rule quietlyI [OF keeps_cwd_determine_build_tag only_determine_build_tag]) simp

lemma quietly_commit_release: "relates (commit_release h version b) quietly"
  by (rule quietlyI [OF keeps_cwd_commit_release only_commit_release]) simp_all

lemma quietly_commit_development: "relates (commit_development h s n) quietly"
  by (rule quietlyI [OF keeps_cwd_commit_development only_commit_development]) simp_all

lemma removed_release_build: "relates (release_build h v) rmtree_called"
  unfolding release_build_def
proof (rule relates_bind_compose [OF quietly_determine_version _ quietly_removed])
  fix a :: "string \<times> int \<times> string"
  obtain series num version where a: "a = (series, num, version)" by (cases a)
  have "relates (io_then (export_dists h version) (commit_development h series num))
          rmtree_called"
    by (rule relates_then_compose
          [OF relates_weaken [OF scoped_export_dists scoped_removed]
              quietly_commit_development removed_quietly])
  then have "relates (io_then (commit_release h version b)
                (io_then (export_dists h version) (commit_development h series num)))
          rmtree_called" for b
    by (rule relates_then_compose [OF quietly_commit_release _ quietly_removed])
  then have "relates (io_bind (determine_build_tag h) (\<lambda>build_tag.
                io_then (commit_release h version build_tag)
               (io_then (export_dists h version) (commit_development h series num))))
          rmtree_called"
    by (rule relates_bind_compose [OF quietly_determine_build_tag _ quietly_removed])
  with a show "relates (case a of (series, num, version) \<Rightarrow>
                io_bind (determine_build_tag h) (\<lambda>build_tag.
                io_then (commit_release h version build_tag)
               (io_then (export_dists h version) (commit_development h series num))))
          rmtree_called"
    by simp
qed

lemma scopedD:
  assumes "relates m scoped_tmpdir"
  shows "chdir_back_failed w (fst (m w)) \<or>
     (cwd (snd (m w)) = cwd w \<and>
      (\<forall>p. Mkdtemp p \<in> set (emitted w (snd (m w))) \<longrightarrow>
         (\<exists>pre mid. emitted w (snd (m w)) =
                      pre @ Mkdtemp p # mid @ [Chdir (cwd w), Rmtree (with_slash p)])))"
proof -
  from relatesD [OF assms, of w] obtain evs
    where e: "trace (snd (m w)) = trace w @ evs"
      and q: "chdir_back_failed w (fst (m w)) \<or>
         (cwd (snd (m w)) = cwd w \<and>
          (\<forall>p. Mkdtemp p \<in> set evs \<longrightarrow>
             (\<exists>pre mid. evs = pre @ Mkdtemp p # mid @ [Chdir (cwd w), Rmtree (with_slash p)])))"
    unfolding scoped_tmpdir_def by blast
  from e have "emitted w (snd (m w)) = evs" by (simp add: emitted_def)
  with q show ?thesis by simp
qed

lemma removedD:
  assumes "relates m rmtree_called"
  shows "chdir_back_failed w (fst (m w)) \<or>
     (cwd (snd (m w)) = cwd w \<and>
      (\<forall>p. Mkdtemp p \<in> set (emitted w (snd (m w))) \<longrightarrow>
         (\<exists>pre post. emitted w (snd (m w)) = pre @ Mkdtemp p # post
                      \<and> Rmtree (with_slash p) \<in> set post)))"
proof -
  from relatesD [OF assms, of w] obtain evs
    where e: "trace (snd (m w)) = trace w @ evs"
      and q: "chdir_back_failed w (fst (m w)) \<or>
         (cwd (snd (m w)) = cwd w \<and>
          (\<forall>p. Mkdtemp p \<in> set evs \<longrightarrow>
             (\<exists>pre post. evs = pre @ Mkdtemp p # post \<and> Rmtree (with_slash p) \<in> set post)))"
    unfolding rmtree_called_def by blast
  from e have "emitted w (snd (m w)) = evs" by (simp add: emitted_def)
  with q show ?thesis by simp
qed

text \<open>Runs of the test task on the example hosts.\<close>

lemma example_world_simps:
  "trace example_world = []" "cwd example_world = ''/repo''"
  "environ example_world = Map.empty"
  by (simp_all add: example_world_def)

lemma example_test_run:
  "release_test example_host None False example_world =
     (Inr (),
      \<lparr>environ = Map.empty, cwd = ''/repo'',
       dirs = [''/repo'', ''/repo/warehouse'', ''/tmp''], files = [],
       trace = [Mkdtemp ''/tmp/tmpx'',
                Run ''git checkout-index -f -a --prefix=/tmp/tmpx/'' 0 [],
                Chdir ''/tmp/tmpx/'',
                Run ''tox -l'' 0
                  (''py27'' @ [CHR 0x0A] @ ''packaging'' @ [CHR 0x0A] @ ''docs'' @ [CHR 0x0A]),
                Run ''tox -e docs'' 0 [], Run ''tox -e py27'' 0 [],
                Chdir ''/repo'', Rmtree ''/tmp/tmpx/'']\<rparr>)"
  by (simp add: release_test_def test_body_def cleanup_def io_eval string_eval host_eval)

lemma removing_test_run:
  "release_test removing_host None False example_world =
     (Inl (OSError ''chdir'' ''/repo''),
      \<lparr>environ = Map.empty, cwd = ''/tmp/tmpx/'',
       dirs = [''/repo/warehouse'', ''/tmp'', ''/tmp/tmpx''], files = [],
       trace = [Mkdtemp ''/tmp/tmpx'',
                Run ''git checkout-index -f -a --prefix=/tmp/tmpx/'' 0 [],
                Chdir ''/tmp/tmpx/'',
                Run ''tox -l'' 0 (''py27'' @ [CHR 0x0A]),
                Run ''tox -e py27'' 0 []]\<rparr>)"
  by (simp add: release_test_def test_body_def cleanup_def io_eval string_eval host_eval)

lemma failing_test_run:
  "release_test failing_host None False example_world =
     (Inl (Failure ''tox -e docs'' 1),
      \<lparr>environ = Map.empty, cwd = ''/repo'',
       dirs = [''/repo'', ''/repo/warehouse'', ''/tmp''], files = [],
       trace = [Mkdtemp ''/tmp/tmpx'',
                Run ''git checkout-index -f -a --prefix=/tmp/tmpx/'' 0 [],
                Chdir ''/tmp/tmpx/'',
                Run ''tox -l'' 0
                  (''py27'' @ [CHR 0x0A] @ ''packaging'' @ [CHR 0x0A] @ ''docs'' @ [CHR 0x0A]),
                Run ''tox -e docs'' 1 [],
                Chdir ''/repo'', Rmtree ''/tmp/tmpx/'']\<rparr>)"
  by (simp add: release_test_def test_body_def cleanup_def io_eval string_eval host_eval)

text \<open>
  C1 does not hold of the code. The \<^verbatim>\<open>finally\<close> block of both tasks is there to remove
  the temporary directory on every exit path, but it calls \<^verbatim>\<open>os.chdir(curdir)\<close> first
  and unguarded, so that an \<^verbatim>\<open>OSError\<close> of that call skips \<^verbatim>\<open>shutil.rmtree(tmpdir)\<close>.
  On a host where a command of the test task removes the directory the task was started
  in, the task ends with that \<^verbatim>\<open>OSError\<close>, \<^verbatim>\<open>rmtree\<close> was never called, and the temporary
  directory the task created is still there.
\<close>

theorem tmpdir_left_behind:
  "fst (release_test removing_host None False example_world) = Inl (OSError ''chdir'' ''/repo'')
   \<and> Mkdtemp ''/tmp/tmpx'' \<in> set (trace (snd (release_test removing_host None False example_world)))
   \<and> Rmtree ''/tmp/tmpx/'' \<notin> set (trace (snd (release_test removing_host None False example_world)))
   \<and> is_dir (snd (release_test removing_host None False example_world)) ''/tmp/tmpx/''"
  by (simp add: removing_test_run is_dir_def norm_path_def)

section \<open>The working directory\<close>

text \<open>
  C8, as the code has it. When the test task or the build task ends, by returning or
  by raising, the working directory is the one the task was started in, unless the
  task ends with the \<^verbatim>\<open>OSError\<close> of the cleanup block's \<^verbatim>\<open>os.chdir(curdir)\<close>.
\<close>

theorem cwd_restored_unless_chdir_fails:
  "(cwd (snd (release_test h db v w)) = cwd w
      \<or> chdir_back_failed w (fst (release_test h db v w)))
   \<and> (cwd (snd (release_build h v w)) = cwd w
      \<or> chdir_back_failed w (fst (release_build h v w)))"
  using scopedD [OF scoped_release_test, of w h db v]
    removedD [OF removed_release_build, of w h v]
  by blast

theorem cwd_restored_example:
  "cwd (snd (release_test failing_host None False example_world)) = cwd example_world
   \<and> fst (release_test failing_host None False example_world) = Inl (Failure ''tox -e docs'' 1)"
proof -
  have "\<not> chdir_back_failed example_world
              (fst (release_test failing_host None False example_world))"
    by (simp add: failing_test_run chdir_back_failed_def)
  with cwd_restored_unless_chdir_fails [of failing_host None False example_world]
  show ?thesis by (simp add: failing_test_run example_world_simps)
qed

text \<open>
  C8, as stated, fails on the same host: the task ends in the temporary directory.
\<close>

theorem cwd_not_restored:
  "cwd (snd (release_test removing_host None False example_world)) = ''/tmp/tmpx/''
   \<and> cwd example_world = ''/repo''"
  by (simp add: removing_test_run example_world_simps)

section \<open>Failing commands\<close>

lemma stops_quiet:
  "emits (io_return a) stops_at_failure" "emits (io_raise e) stops_at_failure"
  "emits (io_lift r) stops_at_failure" "emits (os_putenv k v) stops_at_failure"
  "emits os_getcwd stops_at_failure" "emits (os_chdir p) stops_at_failure"
  "emits (mkdtemp h) stops_at_failure" "emits (rmtree h p) stops_at_failure"
  "emits (\<lambda>w. rmtree h (g w) w) stops_at_failure" "emits (os_makedirs p) stops_at_failure"
  "emits (os_listdir p) stops_at_failure" "emits (shutil_move src dst) stops_at_failure"
  "emits (\<lambda>w. shutil_move src (g w) w) stops_at_failure"
  "emits (write_file p c) stops_at_failure"
  by (rule quiet_stops, rule quiet_intros, simp?)+

lemma stops_run_envs: "emits (run_envs h envs) stops_at_failure"
  by (induction envs) (auto intro!: stops_intros stops_quiet)

lemma stops_build_dists: "emits (build_dists h ts) stops_at_failure"
  by (induction ts) (auto intro!: stops_intros stops_quiet)

lemma stops_test_body: "emits (test_body h t) stops_at_failure"
  unfolding test_body_def by (intro stops_intros stops_quiet stops_run_envs)

lemma stops_export_body: "emits (export_body h v c t) stops_at_failure"
  unfolding export_body_def by (intro stops_intros stops_quiet stops_build_dists)

lemma stops_determine_version: "emits (determine_version h) stops_at_failure"
  unfolding determine_version_def by (intro stops_intros stops_quiet)

lemma stops_determine_build_tag: "emits (determine_build_tag h) stops_at_failure"
  unfolding determine_build_tag_def by (intro stops_intros stops_quiet)

lemma stops_commit_release: "emits (commit_release h v b) stops_at_failure"
  unfolding commit_release_def write_about_def by (intro stops_intros stops_quiet)

lemma stops_commit_development: "emits (commit_development h s n) stops_at_failure"
  unfolding commit_development_def write_about_def by (intro stops_intros stops_quiet)

lemma stops_upload: "emits (release_upload h r v) stops_at_failure"
  unfolding release_upload_def by (intro stops_intros stops_quiet)

lemma stops_aborts: "emits m stops_at_failure \<Longrightarrow> emits m aborts_cleanly"
proof (erule emits_weaken)
  fix r :: "error + 'a" and evs
  assume "stops_at_failure r evs"
  then show "aborts_cleanly r evs"
    unfolding stops_at_failure_def aborts_cleanly_def
  proof (elim disjE conjE exE)
    fix pre ev
    assume "isl r" "evs = pre @ [ev]" "list_all (\<lambda>ev. \<not> failed ev) pre" "failed ev"
    then have "isl r \<and> evs = pre @ ev # [] \<and> list_all (\<lambda>ev. \<not> failed ev) pre \<and> failed ev
      \<and> cleanup_events []" by (simp add: cleanup_events_def)
    then show "list_all (\<lambda>ev. \<not> failed ev) evs \<or>
      (isl r \<and> (\<exists>pre ev post. evs = pre @ ev # post \<and> list_all (\<lambda>ev. \<not> failed ev) pre
                  \<and> failed ev \<and> cleanup_events post))"
      by blast
  qed simp
qed

lemma emits_cleanup:
  "emits (cleanup h c t)
     (\<lambda>r evs. (r = Inr () \<and> evs = [Chdir c, Rmtree t]) \<or> (isl r \<and> evs = []))"
  unfolding cleanup_def
  by (rule emits_weaken [OF emits_then [OF emits_chdir emits_rmtree]]) auto

lemma aborts_try_finally:
  assumes "emits body stops_at_failure"
  shows "emits (try_finally body (cleanup h c t)) aborts_cleanly"
proof (rule emits_weaken [OF emits_try_finally [OF assms emits_cleanup]])
  fix r :: "error + 'a" and evs
  assume "\<exists>rb e1 rf e2. evs = e1 @ e2 \<and> stops_at_failure rb e1 \<and>
            ((rf = Inr () \<and> e2 = [Chdir c, Rmtree t]) \<or> (isl rf \<and> e2 = [])) \<and>
            r = (case rf of Inl e \<Rightarrow> Inl e | Inr u \<Rightarrow> (rb :: error + 'a))"
  then obtain rb :: "error + 'a" and e1 rf e2 where evs: "evs = e1 @ e2"
    and s: "stops_at_failure rb e1"
    and f: "(rf = Inr () \<and> e2 = [Chdir c, Rmtree t]) \<or> (isl rf \<and> e2 = [])"
    and r: "r = (case rf of Inl e \<Rightarrow> Inl e | Inr u \<Rightarrow> rb)" by blast
  from f have q2: "list_all (\<lambda>ev. \<not> failed ev) e2" and c2: "cleanup_events e2"
    by (auto simp: cleanup_events_def)
  from s show "aborts_cleanly r evs" unfolding stops_at_failure_def
  proof (elim disjE conjE exE)
    assume "list_all (\<lambda>ev. \<not> failed ev) e1"
    with q2 evs show ?thesis by (simp add: aborts_cleanly_def)
  next
    fix pre ev
    assume "isl rb" "e1 = pre @ [ev]" "list_all (\<lambda>ev. \<not> failed ev) pre" "failed ev"
    moreover from this r f have "isl r" by (auto split: sum.splits)
    ultimately have "isl r \<and> evs = pre @ ev # e2 \<and> list_all (\<lambda>ev. \<not> failed ev) pre
      \<and> failed ev \<and> cleanup_events e2" using evs c2 by simp
    then show ?thesis unfolding aborts_cleanly_def by blast
  qed
qed

lemma aborts_bind:
  assumes "emits m aborts_cleanly" and "\<And>a. emits (f a) aborts_cleanly"
  shows "emits (io_bind m f) aborts_cleanly"
proof (rule emits_weaken [OF emits_bind [of m aborts_cleanly f "\<lambda>a. aborts_cleanly"]])
  fix r :: "error + 'b" and evs
  assume "(\<exists>e. r = Inl e \<and> aborts_cleanly (Inl e :: error + 'a) evs) \<or>
          (\<exists>a e1 e2. evs = e1 @ e2 \<and> aborts_cleanly (Inr a :: error + 'a) e1
             \<and> aborts_cleanly r e2)"
  then show "aborts_cleanly r evs"
  proof (elim disjE exE conjE)
    fix e assume "r = Inl e" "aborts_cleanly (Inl e :: error + 'a) evs"
    then show ?thesis by (auto simp: aborts_cleanly_def)
  next
    fix a e1 e2
    assume evs: "evs = e1 @ e2" and s1: "aborts_cleanly (Inr a :: error + 'a) e1"
      and s2: "aborts_cleanly r e2"
    from s1 have q1: "list_all (\<lambda>ev. \<not> failed ev) e1" by (simp add: aborts_cleanly_def)
    from s2 show ?thesis unfolding aborts_cleanly_def
    proof (elim disjE conjE exE)
      assume "list_all (\<lambda>ev. \<not> failed ev) e2"
      with q1 evs show "list_all (\<lambda>ev. \<not> failed ev) evs \<or>
        (isl r \<and> (\<exists>pre ev post. evs = pre @ ev # post \<and> list_all (\<lambda>ev. \<not> failed ev) pre
                    \<and> failed ev \<and> cleanup_events post))"
        by simp
    next
      fix pre ev post
      assume "isl r" "e2 = pre @ ev # post" "list_all (\<lambda>ev. \<not> failed ev) pre" "failed ev"
        "cleanup_events post"
      with q1 evs have "isl r \<and> evs = (e1 @ pre) @ ev # post
        \<and> list_all (\<lambda>ev. \<not> failed ev) (e1 @ pre) \<and> failed ev \<and> cleanup_events post" by simp
      then show "list_all (\<lambda>ev. \<not> failed ev) evs \<or>
        (isl r \<and> (\<exists>pre ev post. evs = pre @ ev # post \<and> list_all (\<lambda>ev. \<not> failed ev) pre
                    \<and> failed ev \<and> cleanup_events post))"
        by blast
    qed
  qed
qed (use assms in auto)

lemma aborts_then:
  "emits m aborts_cleanly \<Longrightarrow> emits n aborts_cleanly \<Longrightarrow> emits (io_then m n) aborts_cleanly"
  unfolding io_then_def by (rule aborts_bind)

lemma aborts_release_test: "emits (release_test h db v) aborts_cleanly"
  unfolding release_test_def
  by (intro aborts_then aborts_bind aborts_try_finally stops_test_body)
     (auto split: option.splits intro!: stops_aborts stops_quiet)

lemma aborts_export_dists: "emits (export_dists h version) aborts_cleanly"
  unfolding export_dists_def
  by (intro aborts_then aborts_bind aborts_try_finally stops_export_body)
     (auto intro!: stops_aborts stops_quiet)

lemma aborts_release_build: "emits (release_build h v) aborts_cleanly"
  unfolding release_build_def
  by (intro aborts_then aborts_bind emits_case_prod3 aborts_export_dists
      stops_aborts [OF stops_determine_version] stops_aborts [OF stops_determine_build_tag]
      stops_aborts [OF stops_commit_release] stops_aborts [OF stops_commit_development])

lemma aborts_release_upload: "emits (release_upload h r v) aborts_cleanly"
  by (rule stops_aborts [OF stops_upload])

lemma aborts_release_all: "emits (execute ns h a ''release.all'') aborts_cleanly"
  unfolding execute_release_all
  by (intro aborts_then aborts_release_test aborts_release_build aborts_release_upload)
     (auto simp: release_all_def intro!: stops_aborts stops_quiet)

lemma cleanup_events_quiet:
  assumes "cleanup_events post"
  shows "list_all (\<lambda>e. \<not> is_run e) post" and "list_all (\<lambda>e. \<not> failed e) post"
  using assms by (auto simp: cleanup_events_def)

lemma aborts_on_failureI:
  assumes "emits task aborts_cleanly"
  shows "aborts_on_failure task"
  unfolding aborts_on_failure_def
proof (intro allI impI, elim conjE)
  fix w ev
  let ?evs = "emitted w (snd (task w))"
  assume mem: "ev \<in> set ?evs" and fl: "failed ev"
  from emits_emitted(2) [OF assms, of w] have "aborts_cleanly (fst (task w)) ?evs" .
  moreover from mem fl have "\<not> list_all (\<lambda>ev. \<not> failed ev) ?evs" by (auto simp: list_all_iff)
  ultimately obtain pre ev' post where isl: "isl (fst (task w))"
    and e: "?evs = pre @ ev' # post" and p: "list_all (\<lambda>ev. \<not> failed ev) pre"
    and c: "cleanup_events post"
    unfolding aborts_cleanly_def by blast
  from p fl have "ev \<notin> set pre" by (auto simp: list_all_iff)
  moreover from cleanup_events_quiet(2) [OF c] fl have "ev \<notin> set post"
    by (auto simp: list_all_iff)
  ultimately have "ev = ev'" using mem e by auto
  with isl e p c cleanup_events_quiet(1) [OF c]
  show "isl (fst (task w)) \<and>
        (\<exists>pre post. ?evs = pre @ ev # post \<and> list_all (\<lambda>e. \<not> failed e) pre
           \<and> list_all (\<lambda>e. \<not> is_run e) post \<and> cleanup_events post)"
    by blast
qed

text \<open>
  C3. In each of the four tasks, when a command exits with a nonzero status the task
  raises; no command before it had failed, so it is not a retry; after it nothing is
  run, and the only events that follow are the change back to the starting directory
  and the removal of the temporary directory by the cleanup block, when the failure
  happened inside the \<^verbatim>\<open>try\<close> statement.
\<close>

theorem failing_command_aborts_task:
  "aborts_on_failure (release_test h db v)
   \<and> aborts_on_failure (release_build h v)
   \<and> aborts_on_failure (release_upload h repo v)
   \<and> aborts_on_failure (execute ns h a ''release.all'')"
  by (intro conjI aborts_on_failureI aborts_release_test aborts_release_build
      aborts_release_upload aborts_release_all)

theorem failing_command_aborts_example:
  "Run ''tox -e docs'' 1 []
     \<in> set (emitted example_world (snd (release_test failing_host None False example_world)))
   \<and> failed (Run ''tox -e docs'' 1 [])
   \<and> isl (fst (release_test failing_host None False example_world))
   \<and> (\<exists>pre post.
         emitted example_world (snd (release_test failing_host None False example_world))
           = pre @ Run ''tox -e docs'' 1 [] # post
         \<and> list_all (\<lambda>e. \<not> failed e) pre \<and> list_all (\<lambda>e. \<not> is_run e) post
         \<and> cleanup_events post)
   \<and> emitted example_world (snd (release_test failing_host None False example_world))
     = [Mkdtemp ''/tmp/tmpx'',
        Run ''git checkout-index -f -a --prefix=/tmp/tmpx/'' 0 [],
        Chdir ''/tmp/tmpx/'',
        Run ''tox -l'' 0
          (''py27'' @ [CHR 0x0A] @ ''packaging'' @ [CHR 0x0A] @ ''docs'' @ [CHR 0x0A]),
        Run ''tox -e docs'' 1 [],
        Chdir ''/repo'', Rmtree ''/tmp/tmpx/'']"
proof -
  have e: "emitted example_world (snd (release_test failing_host None False example_world))
     = [Mkdtemp ''/tmp/tmpx'',
        Run ''git checkout-index -f -a --prefix=/tmp/tmpx/'' 0 [],
        Chdir ''/tmp/tmpx/'',
        Run ''tox -l'' 0
          (''py27'' @ [CHR 0x0A] @ ''packaging'' @ [CHR 0x0A] @ ''docs'' @ [CHR 0x0A]),
        Run ''tox -e docs'' 1 [],
        Chdir ''/repo'', Rmtree ''/tmp/tmpx/'']"
    by (simp add: failing_test_run emitted_def example_world_simps)
  have m: "Run ''tox -e docs'' 1 []
     \<in> set (emitted example_world (snd (release_test failing_host None False example_world)))"
    unfolding e by simp
  have f: "failed (Run ''tox -e docs'' 1 [])" by simp
  from failing_command_aborts_task [of failing_host None False]
  have "aborts_on_failure (release_test failing_host None False)" by (rule conjunct1)
  with m f have "isl (fst (release_test failing_host None False example_world))
   \<and> (\<exists>pre post.
         emitted example_world (snd (release_test failing_host None False example_world))
           = pre @ Run ''tox -e docs'' 1 [] # post
         \<and> list_all (\<lambda>e. \<not> failed e) pre \<and> list_all (\<lambda>e. \<not> is_run e) post
         \<and> cleanup_events post)"
    unfolding aborts_on_failure_def by blast
  with m f e show ?thesis by blast
qed

section \<open>The test environments\<close>

lemma tox_runs_append: "tox_runs (xs @ ys) = tox_runs xs @ tox_runs ys"
  by (simp add: tox_runs_def List.map_filter_def)

lemma tox_runs_Nil: "tox_runs [] = []"
  by (simp add: tox_runs_def List.map_filter_def)

lemma tox_runs_Cons:
  "tox_runs (ev # evs) = (case tox_env ev of None \<Rightarrow> tox_runs evs | Some e \<Rightarrow> e # tox_runs evs)"
  by (simp add: tox_runs_def List.map_filter_def split: option.splits)

lemma tox_runs_no_runs:
  "list_all (\<lambda>ev. \<not> is_run ev) evs \<Longrightarrow> tox_runs evs = []"
proof (induction evs)
  case Nil
  show ?case by (simp add: tox_runs_Nil)
next
  case (Cons ev evs)
  then show ?case by (cases ev) (simp_all add: tox_runs_Cons)
qed

lemma listings_append: "listings (xs @ ys) = listings xs @ listings ys"
  by (simp add: listings_def List.map_filter_def)

lemma listings_Nil: "listings [] = []"
  by (simp add: listings_def List.map_filter_def)

lemma listings_Cons:
  "listings (ev # evs) =
     (case tox_listing ev of None \<Rightarrow> listings evs | Some out \<Rightarrow> out # listings evs)"
  by (simp add: listings_def List.map_filter_def split: option.splits)

lemma listings_no_runs:
  "list_all (\<lambda>ev. \<not> is_run ev) evs \<Longrightarrow> listings evs = []"
proof (induction evs)
  case Nil
  show ?case by (simp add: listings_Nil)
next
  case (Cons ev evs)
  then show ?case by (cases ev) (simp_all add: listings_Cons)
qed

lemma set_set_iter: "set (set_iter h xs) = set xs"
  by (simp add: set_iter_def)

lemma distinct_set_iter: "distinct (set_iter h xs)"
  by (simp add: set_iter_def)

text \<open>The loop runs a prefix of the environments, all of them when it returns.\<close>

lemma emits_run_envs:
  "emits (run_envs h envs)
     (\<lambda>r evs. (\<exists>n. tox_runs evs = take n envs) \<and> (r = Inr () \<longrightarrow> tox_runs evs = envs)
               \<and> listings evs = [])"
proof (induction envs)
  case Nil
  show ?case by (simp add: emits_return tox_runs_Nil listings_Nil)
next
  case (Cons env envs)
  have step: "emits (run h (''tox -e '' @ env))
     (\<lambda>r evs. \<exists>status out. evs = [Run (''tox -e '' @ env) status out] \<and>
                r = (if status = 0 then Inr out else Inl (Failure (''tox -e '' @ env) status)))"
    by (rule emits_run)
  show ?case
    unfolding run_envs.simps
  proof (rule emits_weaken [OF emits_then [OF step Cons.IH]])
    fix r :: "error + unit" and evs
    assume "(\<exists>e. r = Inl e \<and> (\<exists>status out. evs = [Run (''tox -e '' @ env) status out] \<and>
                (Inl e :: error + string) =
                (if status = 0 then Inr out else Inl (Failure (''tox -e '' @ env) status)))) \<or>
          (\<exists>a e1 e2. evs = e1 @ e2 \<and>
             (\<exists>status out. e1 = [Run (''tox -e '' @ env) status out] \<and>
                (Inr a :: error + string) =
                (if status = 0 then Inr out else Inl (Failure (''tox -e '' @ env) status))) \<and>
             ((\<exists>n. tox_runs e2 = take n envs) \<and> (r = Inr () \<longrightarrow> tox_runs e2 = envs)
               \<and> listings e2 = []))"
    then show "(\<exists>n. tox_runs evs = take n (env # envs))
               \<and> (r = Inr () \<longrightarrow> tox_runs evs = env # envs)
               \<and> listings evs = []"
    proof (elim disjE exE conjE)
      fix e status out
      assume "r = Inl e" "evs = [Run (''tox -e '' @ env) status out]"
      then have "tox_runs evs = take 1 (env # envs)" "r \<noteq> Inr ()" "listings evs = []"
        by (simp_all add: tox_runs_Cons tox_runs_Nil listings_Cons listings_Nil)
      then show ?thesis by blast
    next
      fix a e1 e2 status out n
      assume evs: "evs = e1 @ e2" and e1: "e1 = [Run (''tox -e '' @ env) status out]"
        and n: "tox_runs e2 = take n envs" and all: "r = Inr () \<longrightarrow> tox_runs e2 = envs"
        and l: "listings e2 = []"
      from evs e1 have t: "tox_runs evs = env # tox_runs e2"
        by (simp add: tox_runs_Cons)
      with n have "tox_runs evs = take (Suc n) (env # envs)" by simp
      moreover from t all have "r = Inr () \<longrightarrow> tox_runs evs = env # envs" by simp
      moreover from evs e1 l have "listings evs = []" by (simp add: listings_Cons)
      ultimately show ?thesis by blast
    qed
  qed
qed

lemma runs_listed_envs_quiet:
  "list_all (\<lambda>ev. \<not> is_run ev) evs \<Longrightarrow> r \<noteq> Inr () \<Longrightarrow> runs_listed_envs r evs"
  by (simp add: runs_listed_envs_def tox_runs_no_runs listings_no_runs)

lemma runs_listed_envs_surround:
  assumes "runs_listed_envs r e2" and "list_all (\<lambda>ev. \<not> is_run ev) e1"
    and "list_all (\<lambda>ev. \<not> is_run ev) e3"
  shows "runs_listed_envs r (e1 @ e2 @ e3)"
proof -
  from assms(2,3) have "tox_runs (e1 @ e2 @ e3) = tox_runs e2"
    and "listings (e1 @ e2 @ e3) = listings e2"
    by (simp_all add: tox_runs_append tox_runs_no_runs listings_append listings_no_runs)
  with assms(1) show ?thesis by (simp add: runs_listed_envs_def)
qed

lemma runs_listed_envs_loop:
  assumes n: "tox_runs loop = take n (set_iter h (filter (\<lambda>env. env \<noteq> ''packaging'') (py_split out)))"
    and a: "r = Inr () \<longrightarrow>
            tox_runs loop = set_iter h (filter (\<lambda>env. env \<noteq> ''packaging'') (py_split out))"
    and l: "listings loop = []"
    and p: "tox_runs pre = []" "listings pre = []"
  shows "runs_listed_envs r (pre @ Run ''tox -l'' 0 out # loop)"
proof -
  let ?envs = "set_iter h (filter (\<lambda>env. env \<noteq> ''packaging'') (py_split out))"
  let ?evs = "pre @ Run ''tox -l'' 0 out # loop"
  have t: "tox_runs ?evs = tox_runs loop"
    using p(1) by (simp add: tox_runs_append tox_runs_Cons)
  have ls: "listings ?evs = [out]"
    using p(2) l by (simp add: listings_append listings_Cons)
  have s: "set ?envs = set (py_split out) - {''packaging''}"
    by (auto simp: set_set_iter)
  have d: "distinct (tox_runs ?evs)"
    unfolding t n by (rule distinct_take [OF distinct_set_iter])
  have sub: "set (tox_runs ?evs) \<subseteq> set (py_split out) - {''packaging''}"
    unfolding t n using set_take_subset [of n ?envs] s by blast
  have all: "r = Inr () \<longrightarrow> set (tox_runs ?evs) = set (py_split out) - {''packaging''}"
    using a t s by simp
  from sub have "''packaging'' \<notin> set (tox_runs ?evs)" by blast
  with d ls sub all show ?thesis unfolding runs_listed_envs_def by blast
qed

lemma emits_test_body: "emits (test_body h t) runs_listed_envs"
  unfolding test_body_def
proof (rule emits_weaken
    [OF emits_then [OF emits_run emits_then [OF emits_chdir emits_bind [OF emits_run emits_run_envs]]]])
  fix r :: "error + unit" and evs
  let ?co = "''git checkout-index -f -a --prefix='' @ t"
  let ?envs = "\<lambda>out. set_iter h (filter (\<lambda>env. env \<noteq> ''packaging'') (py_split out))"
  assume "(\<exists>e. r = Inl e \<and>
            (\<exists>status out. evs = [Run ?co status out] \<and>
               (Inl e :: error + string) = (if status = 0 then Inr out else Inl (Failure ?co status)))) \<or>
          (\<exists>a e1 e2. evs = e1 @ e2 \<and>
            (\<exists>status out. e1 = [Run ?co status out] \<and>
               (Inr a :: error + string) = (if status = 0 then Inr out else Inl (Failure ?co status))) \<and>
            ((\<exists>e. r = Inl e \<and>
                (((Inl e :: error + unit) = Inr () \<and> e2 = [Chdir t]) \<or>
                 ((Inl e :: error + unit) = Inl (OSError ''chdir'' t) \<and> e2 = []))) \<or>
             (\<exists>a e1' e2'. e2 = e1' @ e2' \<and>
                (((Inr a :: error + unit) = Inr () \<and> e1' = [Chdir t]) \<or>
                 ((Inr a :: error + unit) = Inl (OSError ''chdir'' t) \<and> e1' = [])) \<and>
                ((\<exists>e. r = Inl e \<and>
                    (\<exists>status out. e2' = [Run ''tox -l'' status out] \<and>
                       (Inl e :: error + string) =
                       (if status = 0 then Inr out else Inl (Failure ''tox -l'' status)))) \<or>
                 (\<exists>a e1'' e2''. e2' = e1'' @ e2'' \<and>
                    (\<exists>status out. e1'' = [Run ''tox -l'' status out] \<and>
                       (Inr a :: error + string) =
                       (if status = 0 then Inr out else Inl (Failure ''tox -l'' status))) \<and>
                    ((\<exists>n. tox_runs e2'' = take n (?envs a)) \<and>
                     (r = Inr () \<longrightarrow> tox_runs e2'' = ?envs a) \<and>
                     listings e2'' = []))))))"
  then show "runs_listed_envs r evs"
  proof (elim disjE exE conjE)
    fix e status out
    assume "r = Inl e" "evs = [Run ?co status out]"
    then show ?thesis
      by (simp add: runs_listed_envs_def tox_runs_Cons tox_runs_Nil listings_Cons listings_Nil)
  next
    fix a e1 e2 status out e
    assume "evs = e1 @ e2" "e1 = [Run ?co status out]" "r = Inl e" "e2 = [Chdir t]"
    then show ?thesis
      by (simp add: runs_listed_envs_def tox_runs_Cons tox_runs_Nil listings_Cons listings_Nil)
  next
    fix a e1 e2 status out e
    assume "evs = e1 @ e2" "e1 = [Run ?co status out]" "r = Inl e" "e2 = []"
    then show ?thesis
      by (simp add: runs_listed_envs_def tox_runs_Cons tox_runs_Nil listings_Cons listings_Nil)
  next
    fix a e1 e2 status out a' e1' e2' e status' out'
    assume "evs = e1 @ e2" "e1 = [Run ?co status out]" "e2 = e1' @ e2'" "e1' = [Chdir t]"
      "r = Inl e" "e2' = [Run ''tox -l'' status' out']"
      "(Inl e :: error + string) =
         (if status' = 0 then Inr out' else Inl (Failure ''tox -l'' status'))"
    then show ?thesis
      by (auto simp: runs_listed_envs_def tox_runs_Cons tox_runs_Nil listings_Cons listings_Nil
          split: if_splits)
  next
    fix a e1 e2 status out a' e1' e2' e status' out'
    assume "(Inr a' :: error + unit) = Inl (OSError ''chdir'' t)"
    then show ?thesis by simp
  next
    fix a e1 e2 status out a' e1' e2' tags e1'' e2'' status' out' n
    assume evs: "evs = e1 @ e2" "e1 = [Run ?co status out]" "e2 = e1' @ e2'" "e1' = [Chdir t]"
      "e2' = e1'' @ e2''" "e1'' = [Run ''tox -l'' status' out']"
      and ok: "(Inr tags :: error + string) =
         (if status' = 0 then Inr out' else Inl (Failure ''tox -l'' status'))"
      and n: "tox_runs e2'' = take n (?envs tags)"
      and a: "r = Inr () \<longrightarrow> tox_runs e2'' = ?envs tags"
      and l: "listings e2'' = []"
    from ok have s0: "status' = 0" and t: "tags = out'" by (auto split: if_splits)
    have "evs = [Run ?co status out, Chdir t] @ Run ''tox -l'' 0 out' # e2''"
      using evs s0 by simp
    moreover have "runs_listed_envs r ([Run ?co status out, Chdir t] @ Run ''tox -l'' 0 out' # e2'')"
      using n a l unfolding t
      by (intro runs_listed_envs_loop [where n = n and h = h])
         (auto simp: tox_runs_Cons tox_runs_Nil listings_Cons listings_Nil)
    ultimately show ?thesis by simp
  next
    fix a e1 e2 status out a' e1' e2' a'' e1'' e2'' status' out' n
    assume "(Inr a' :: error + unit) = Inl (OSError ''chdir'' t)"
    then show ?thesis by simp
  qed
qed

lemma runs_listed_envs_raised:
  "runs_listed_envs rb evs \<Longrightarrow> r \<noteq> Inr () \<Longrightarrow> runs_listed_envs r evs"
  unfolding runs_listed_envs_def by blast

text \<open>A trace in which an environment runs although the listing failed is excluded.\<close>

lemma unlisted_run_excluded:
  "\<not> runs_listed_envs (Inl e) [Run ''tox -l'' 1 [], Run ''tox -e bogus'' 0 []]"
  by (simp add: runs_listed_envs_def tox_runs_Cons tox_runs_Nil listings_Cons listings_Nil)

lemma envs_bind:
  assumes m: "emits m (only (\<lambda>ev. \<not> is_run ev))" and f: "\<And>a. emits (f a) runs_listed_envs"
  shows "emits (io_bind m f) runs_listed_envs"
proof (rule emits_weaken [OF emits_bind [OF m f]])
  fix r :: "error + unit" and evs
  assume "(\<exists>e. r = Inl e \<and> only (\<lambda>ev. \<not> is_run ev) (Inl e :: error + 'a) evs) \<or>
          (\<exists>a e1 e2. evs = e1 @ e2 \<and> only (\<lambda>ev. \<not> is_run ev) (Inr a :: error + 'a) e1
             \<and> runs_listed_envs r e2)"
  then show "runs_listed_envs r evs"
  proof (elim disjE exE conjE)
    fix e assume "r = Inl e" "only (\<lambda>ev. \<not> is_run ev) (Inl e :: error + 'a) evs"
    then show ?thesis by (simp add: only_def runs_listed_envs_quiet)
  next
    fix a e1 e2
    assume "evs = e1 @ e2" "only (\<lambda>ev. \<not> is_run ev) (Inr a :: error + 'a) e1"
      "runs_listed_envs r e2"
    then show ?thesis
      using runs_listed_envs_surround [of r e2 e1 "[]"] by (simp add: only_def)
  qed
qed

lemma envs_then:
  "emits m (only (\<lambda>ev. \<not> is_run ev)) \<Longrightarrow> emits n runs_listed_envs \<Longrightarrow>
   emits (io_then m n) runs_listed_envs"
  unfolding io_then_def by (rule envs_bind)

lemma envs_try_finally:
  assumes b: "emits b runs_listed_envs" and f: "emits f (only (\<lambda>ev. \<not> is_run ev))"
  shows "emits (try_finally b f) runs_listed_envs"
proof (rule emits_weaken [OF emits_try_finally [OF b f]])
  fix r :: "error + unit" and evs
  assume "\<exists>rb e1 rf e2. evs = e1 @ e2 \<and> runs_listed_envs rb e1 \<and>
            only (\<lambda>ev. \<not> is_run ev) rf e2 \<and>
            r = (case rf of Inl e \<Rightarrow> Inl e | Inr u \<Rightarrow> rb)"
  then show "runs_listed_envs r evs"
    apply (elim exE conjE)
    subgoal for rb e1 rf e2
      apply (cases rf)
      subgoal for e
        using runs_listed_envs_surround [of "r" e1 "[]" e2] runs_listed_envs_raised [of rb e1 r]
        by (simp add: only_def)
      subgoal for u
        using runs_listed_envs_surround [of "r" e1 "[]" e2]
        by (simp add: only_def)
      done
    done
qed

lemma envs_release_test: "emits (release_test h db v) runs_listed_envs"
  unfolding release_test_def
  by (intro envs_then envs_bind envs_try_finally emits_test_body only_cleanup
      only_getcwd only_mkdtemp)
     (auto split: option.splits intro!: only_return only_putenv)

text \<open>
  C9, as the code has it. In every run of the test task, completed or not, no
  environment is run twice and \<^verbatim>\<open>packaging\<close> is never run. Either the task raised
  without a listing (\<^verbatim>\<open>tox -l\<close> failed or was not reached) and no environment was run
  at all; or \<^verbatim>\<open>tox -l\<close> succeeded exactly once, every environment run is one of those
  it listed other than \<^verbatim>\<open>packaging\<close>, and when the task returns without an exception
  the environments run are exactly the listed ones other than \<^verbatim>\<open>packaging\<close>.
\<close>

theorem test_runs_listed_environments:
  fixes h :: host and db :: "string option" and v :: bool and w :: world
  defines "evs \<equiv> emitted w (snd (release_test h db v w))"
  shows "distinct (tox_runs evs) \<and> ''packaging'' \<notin> set (tox_runs evs) \<and>
      ((listings evs = [] \<and> tox_runs evs = [] \<and> fst (release_test h db v w) \<noteq> Inr ()) \<or>
       (\<exists>out. listings evs = [out] \<and>
          set (tox_runs evs) \<subseteq> set (py_split out) - {''packaging''} \<and>
          (fst (release_test h db v w) = Inr () \<longrightarrow>
             set (tox_runs evs) = set (py_split out) - {''packaging''})))"
  using emits_emitted(2) [OF envs_release_test, of h db v w]
  unfolding evs_def runs_listed_envs_def by blast

lemma example_test_emitted:
  "emitted example_world (snd (release_test example_host None False example_world)) =
     [Mkdtemp ''/tmp/tmpx'',
      Run ''git checkout-index -f -a --prefix=/tmp/tmpx/'' 0 [],
      Chdir ''/tmp/tmpx/'',
      Run ''tox -l'' 0
        (''py27'' @ [CHR 0x0A] @ ''packaging'' @ [CHR 0x0A] @ ''docs'' @ [CHR 0x0A]),
      Run ''tox -e docs'' 0 [], Run ''tox -e py27'' 0 [],
      Chdir ''/repo'', Rmtree ''/tmp/tmpx/'']"
  by (simp add: example_test_run emitted_def example_world_simps)

lemma failing_test_emitted:
  "emitted example_world (snd (release_test failing_host None False example_world)) =
     [Mkdtemp ''/tmp/tmpx'',
      Run ''git checkout-index -f -a --prefix=/tmp/tmpx/'' 0 [],
      Chdir ''/tmp/tmpx/'',
      Run ''tox -l'' 0
        (''py27'' @ [CHR 0x0A] @ ''packaging'' @ [CHR 0x0A] @ ''docs'' @ [CHR 0x0A]),
      Run ''tox -e docs'' 1 [],
      Chdir ''/repo'', Rmtree ''/tmp/tmpx/'']"
  by (simp add: failing_test_run emitted_def example_world_simps)

theorem test_runs_listed_environments_example:
  "fst (release_test example_host None False example_world) = Inr ()
   \<and> listings (emitted example_world (snd (release_test example_host None False example_world)))
       = [''py27'' @ [CHR 0x0A] @ ''packaging'' @ [CHR 0x0A] @ ''docs'' @ [CHR 0x0A]]
   \<and> tox_runs (emitted example_world (snd (release_test example_host None False example_world)))
       = [''docs'', ''py27'']
   \<and> distinct (tox_runs (emitted example_world
        (snd (release_test example_host None False example_world))))
   \<and> ''packaging'' \<notin> set (tox_runs (emitted example_world
        (snd (release_test example_host None False example_world))))
   \<and> set (tox_runs (emitted example_world
              (snd (release_test example_host None False example_world))))
       = set (py_split (''py27'' @ [CHR 0x0A] @ ''packaging'' @ [CHR 0x0A] @ ''docs'' @ [CHR 0x0A]))
           - {''packaging''}"
proof -
  let ?E = "emitted example_world (snd (release_test example_host None False example_world))"
  let ?out = "''py27'' @ [CHR 0x0A] @ ''packaging'' @ [CHR 0x0A] @ ''docs'' @ [CHR 0x0A]"
  have r: "fst (release_test example_host None False example_world) = Inr ()"
    by (simp add: example_test_run)
  have t: "tox_runs ?E = [''docs'', ''py27'']"
    unfolding example_test_emitted by (simp add: tox_runs_Cons tox_runs_Nil)
  have l: "listings ?E = [?out]"
    unfolding example_test_emitted by (simp add: listings_Cons listings_Nil)
  note c = test_runs_listed_environments [of example_world example_host None False]
  from c have d: "distinct (tox_runs ?E)"
    by (rule conjunct1)
  from c have p: "''packaging'' \<notin> set (tox_runs ?E)"
    by (rule conjunct2 [THEN conjunct1])
  from c have "(listings ?E = [] \<and> tox_runs ?E = []
        \<and> fst (release_test example_host None False example_world) \<noteq> Inr ()) \<or>
     (\<exists>out. listings ?E = [out] \<and>
        set (tox_runs ?E) \<subseteq> set (py_split out) - {''packaging''} \<and>
        (fst (release_test example_host None False example_world) = Inr () \<longrightarrow>
           set (tox_runs ?E) = set (py_split out) - {''packaging''}))"
    by (rule conjunct2 [THEN conjunct2])
  then have e: "set (tox_runs ?E) = set (py_split ?out) - {''packaging''}"
  proof (elim disjE exE conjE)
    assume "fst (release_test example_host None False example_world) \<noteq> Inr ()"
    with r show ?thesis by blast
  next
    fix out
    assume o: "listings ?E = [out]"
      and a: "fst (release_test example_host None False example_world) = Inr () \<longrightarrow>
           set (tox_runs ?E) = set (py_split out) - {''packaging''}"
    from o l have "out = ?out" by simp
    with a r show ?thesis by blast
  qed
  from r l t d p e show ?thesis by (intro conjI)
qed

text \<open>
  C9, as stated, fails: when the \<^verbatim>\<open>docs\<close> environment fails, the \<^verbatim>\<open>py27\<close>
  environment, which \<^verbatim>\<open>tox -l\<close> listed, is not run.
\<close>

theorem listed_environment_not_run:
  "Run ''tox -l'' 0 (''py27'' @ [CHR 0x0A] @ ''packaging'' @ [CHR 0x0A] @ ''docs'' @ [CHR 0x0A])
     \<in> set (emitted example_world (snd (release_test failing_host None False example_world)))
   \<and> ''py27'' \<in> set (py_split (''py27'' @ [CHR 0x0A] @ ''packaging'' @ [CHR 0x0A]
                        @ ''docs'' @ [CHR 0x0A])) - {''packaging''}
   \<and> tox_runs (emitted example_world (snd (release_test failing_host None False example_world)))
       = [''docs'']"
  unfolding failing_test_emitted
  by (simp add: tox_runs_Cons tox_runs_Nil py_split_def isspace_def)

section \<open>The build task\<close>





















































section \<open>The metadata written by the build task\<close>





end
